theory Spec2Isabelle
  imports Complex_Main
begin

section \<open>The meteor shower simulation core (MeteorShower.cpp)\<close>

text \<open>
  A shallow embedding of the constructor \<^verbatim>\<open>MeteorShower::MeteorShower\<close>, of
  \<^verbatim>\<open>enabled\<close>, \<^verbatim>\<open>update\<close>, \<^verbatim>\<open>hasGenericShower\<close>, \<^verbatim>\<open>hasConfirmedShower\<close> and
  \<^verbatim>\<open>calculateZHR\<close>.

  Conventions of the embedding:
  \<^item> C++ \<^verbatim>\<open>int\<close> and \<^verbatim>\<open>qint64\<close> are HOL integers: no catalog year or Julian day is near
    the range limits, and overflow is outside the model.
  \<^item> \<^verbatim>\<open>float\<close> and \<^verbatim>\<open>double\<close> are real numbers: rounding error is outside the model.
    The one division whose divisor can be zero (in \<^verbatim>\<open>calculateZHR\<close>) is written out
    with its IEEE 754 result.
  \<^item> \<^verbatim>\<open>QList::at\<close> with an index out of range is the error \<open>OutOfBounds\<close>; every
    function that can reach one returns \<open>error + 'a\<close>.
  \<^item> An early \<^verbatim>\<open>return\<close> of the constructor leaves the object with the fields set so
    far; the model returns that object.
\<close>

subsection \<open>QDate (Qt 5, proleptic Gregorian calendar)\<close>

text \<open>
  \<^verbatim>\<open>QDate\<close> is a class of the Qt library. Qt stores a Julian day number, with a
  reserved value for the null date; the model stores the calendar triple and computes
  the Julian day with Qt's formula, so that \<^verbatim>\<open>year()\<close>, \<^verbatim>\<open>month()\<close> and \<^verbatim>\<open>day()\<close> are
  projections. Comparison operators compare Julian days, as in Qt, and the null date has
  the smallest one.
\<close>

datatype QDate = QDate_null | QDate_ymd int int int

text \<open>
  The constants and the static functions of qdatetime.cpp: the Julian day of the null
  date, the range of valid Julian days, leap years (there is no year 0, and the year
  \<open>-1\<close> is one), the days of a month, the validity of a triple, and the two
  conversions between a Julian day and a triple, with division rounding down.
\<close>

definition nullJd :: int where
  "nullJd = - (2 ^ 63)"

definition minJd :: int where
  "minJd = - 784350574879"

definition maxJd :: int where
  "maxJd = 784354017364"

definition isLeapYear :: "int \<Rightarrow> bool" where
  "isLeapYear y =
     (let y = (if y < 1 then y + 1 else y)
      in (y mod 4 = 0 \<and> y mod 100 \<noteq> 0) \<or> y mod 400 = 0)"

definition monthDays :: "int \<Rightarrow> int" where
  "monthDays m =
     (if m = 2 then 28
      else if m = 4 \<or> m = 6 \<or> m = 9 \<or> m = 11 then 30
      else if 1 \<le> m \<and> m \<le> 12 then 31
      else 0)"

definition isValid_ymd :: "int \<Rightarrow> int \<Rightarrow> int \<Rightarrow> bool" where
  "isValid_ymd year month day =
     (if year = 0 then False
      else (day > 0 \<and> month > 0 \<and> month \<le> 12) \<and>
           (day \<le> monthDays month \<or> (day = 29 \<and> month = 2 \<and> isLeapYear year)))"

definition julianDayFromDate :: "int \<Rightarrow> int \<Rightarrow> int \<Rightarrow> int" where
  "julianDayFromDate year month day =
     (let year = (if year < 0 then year + 1 else year);
          a = (14 - month) div 12;
          y = year + 4800 - a;
          m = month + 12 * a - 3
      in day + (153 * m + 2) div 5 + 365 * y + y div 4 - y div 100 + y div 400 - 32045)"

definition getDateFromJulianDay :: "int \<Rightarrow> int \<times> int \<times> int" where
  "getDateFromJulianDay julianDay =
     (let a = julianDay + 32044;
          b = (4 * a + 3) div 146097;
          c = a - (146097 * b) div 4;
          d = (4 * c + 3) div 1461;
          e = c - (1461 * d) div 4;
          m = (5 * e + 2) div 153;
          day = e - (153 * m + 2) div 5 + 1;
          month = m + 3 - 12 * (m div 10);
          year = 100 * b + d - 4800 + m div 10;
          year = (if year \<le> 0 then year - 1 else year)
      in (year, month, day))"

text \<open>
  The member functions that MeteorShower.cpp calls. \<^verbatim>\<open>setDate\<close> gives the null date for
  an invalid triple; \<^verbatim>\<open>year()\<close>, \<^verbatim>\<open>month()\<close> and \<^verbatim>\<open>day()\<close> are 0 for the null date;
  \<^verbatim>\<open>addYears\<close> skips the year 0 and keeps the day within the month.
\<close>

definition QDate_fromJulianDay :: "int \<Rightarrow> QDate" where
  "QDate_fromJulianDay jd =
     (if minJd \<le> jd \<and> jd \<le> maxJd
      then (case getDateFromJulianDay jd of (y, m, d) \<Rightarrow> QDate_ymd y m d)
      else QDate_null)"

definition QDate_setDate :: "int \<Rightarrow> int \<Rightarrow> int \<Rightarrow> QDate" where
  "QDate_setDate year month day =
     (if isValid_ymd year month day then QDate_ymd year month day else QDate_null)"

fun toJulianDay :: "QDate \<Rightarrow> int" where
  "toJulianDay QDate_null = nullJd"
| "toJulianDay (QDate_ymd y m d) = julianDayFromDate y m d"

fun isValid :: "QDate \<Rightarrow> bool" where
  "isValid QDate_null = False"
| "isValid (QDate_ymd y m d) = True"

fun year_of :: "QDate \<Rightarrow> int" where
  "year_of QDate_null = 0"
| "year_of (QDate_ymd y m d) = y"

fun month_of :: "QDate \<Rightarrow> int" where
  "month_of QDate_null = 0"
| "month_of (QDate_ymd y m d) = m"

fun day_of :: "QDate \<Rightarrow> int" where
  "day_of QDate_null = 0"
| "day_of (QDate_ymd y m d) = d"

definition daysInMonth :: "int \<Rightarrow> int \<Rightarrow> int" where
  "daysInMonth year month =
     (if month = 2 \<and> isLeapYear year then 29 else monthDays month)"

definition fixedDate :: "int \<Rightarrow> int \<Rightarrow> int \<Rightarrow> QDate" where
  "fixedDate y m d =
     (let result = QDate_setDate y m 1
      in QDate_setDate y m (min d (if isValid result then daysInMonth y m else 0)))"

fun addYears :: "QDate \<Rightarrow> int \<Rightarrow> QDate" where
  "addYears QDate_null nyears = QDate_null"
| "addYears (QDate_ymd old_y m d) nyears =
     (let y = old_y + nyears;
          y = (if (old_y > 0 \<and> y \<le> 0) \<or> (old_y < 0 \<and> y \<ge> 0)
               then y + (if nyears > 0 then 1 else - 1) else y)
      in fixedDate y m d)"

definition date_gt :: "QDate \<Rightarrow> QDate \<Rightarrow> bool" where
  "date_gt a b = (toJulianDay a > toJulianDay b)"

definition date_ge :: "QDate \<Rightarrow> QDate \<Rightarrow> bool" where
  "date_ge a b = (toJulianDay a \<ge> toJulianDay b)"

definition date_le :: "QDate \<Rightarrow> QDate \<Rightarrow> bool" where
  "date_le a b = (toJulianDay a \<le> toJulianDay b)"

subsection \<open>QString helpers\<close>

text \<open>
  Library functions of Qt, modelled for the inputs the catalog uses: decimal numbers,
  zero-padded \<^verbatim>\<open>MM.dd\<close> dates and four-digit years. Every other string is refused: a
  conversion fails and a date is null.
\<close>

text \<open>The value of a decimal digit, and of a string of digits after the value \<open>acc\<close>.\<close>

definition digit_val :: "char \<Rightarrow> int option" where
  "digit_val c =
     (let n = (of_char c :: nat)
      in if 48 \<le> n \<and> n \<le> 57 then Some (int n - 48) else None)"

fun digits_val :: "int \<Rightarrow> string \<Rightarrow> int option" where
  "digits_val acc [] = Some acc"
| "digits_val acc (c # cs) =
     (case digit_val c of None \<Rightarrow> None | Some v \<Rightarrow> digits_val (10 * acc + v) cs)"

text \<open>\<^verbatim>\<open>QString::number\<close> of an \<^verbatim>\<open>int\<close>, in base 10.\<close>

fun nat_to_string :: "nat \<Rightarrow> string" where
  "nat_to_string n =
     (if n < 10 then [''0123456789'' ! n]
      else nat_to_string (n div 10) @ [''0123456789'' ! (n mod 10)])"

definition QString_number :: "int \<Rightarrow> string" where
  "QString_number n =
     (if n < 0 then CHR ''-'' # nat_to_string (nat (- n)) else nat_to_string (nat n))"

text \<open>
  \<^verbatim>\<open>QString::split\<close> at a one-character separator, empty parts kept: the empty string
  gives one empty part.
\<close>

fun QString_split :: "char \<Rightarrow> string \<Rightarrow> string list" where
  "QString_split sep [] = [Nil]"
| "QString_split sep (c # cs) =
     (if c = sep then [] # QString_split sep cs
      else (case QString_split sep cs of
              [] \<Rightarrow> [c # Nil]
            | p # ps \<Rightarrow> (c # p) # ps))"

text \<open>
  \<^verbatim>\<open>QString::toInt\<close> in base 10: spaces around the number are skipped, one sign is read,
  and the value has to fit an \<^verbatim>\<open>int\<close> of 32 bits. \<open>None\<close> is the failed conversion,
  where Qt returns 0 and clears \<^verbatim>\<open>ok\<close>.
\<close>

definition trimmed :: "string \<Rightarrow> string" where
  "trimmed s =
     rev (dropWhile (\<lambda>c. c = CHR '' '') (rev (dropWhile (\<lambda>c. c = CHR '' '') s)))"

definition QString_toInt :: "string \<Rightarrow> int option" where
  "QString_toInt s =
     (let t = trimmed s;
          neg = (t \<noteq> [] \<and> hd t = CHR ''-'');
          body = (if t \<noteq> [] \<and> (hd t = CHR ''-'' \<or> hd t = CHR ''+'') then tl t else t)
      in if body = [] then None
         else (case digits_val 0 body of
                 None \<Rightarrow> None
               | Some v \<Rightarrow>
                   (let n = (if neg then - v else v)
                    in if - (2 ^ 31) \<le> n \<and> n < 2 ^ 31 then Some n else None)))"

text \<open>
  \<^verbatim>\<open>QDate::fromString(s, "MM.dd yyyy")\<close>: two digits, a dot, two digits, a space and four
  digits that make a date of the calendar; the null date otherwise.
\<close>

definition QDate_fromString :: "string \<Rightarrow> QDate" where
  "QDate_fromString s =
     (if length s = 10 \<and> s ! 2 = CHR ''.'' \<and> s ! 5 = CHR '' ''
      then (case (digits_val 0 (take 2 s), digits_val 0 (take 2 (drop 3 s)),
                  digits_val 0 (drop 6 s)) of
              (Some m, Some d, Some y) \<Rightarrow> QDate_setDate y m d
            | _ \<Rightarrow> QDate_null)
      else QDate_null)"

subsection \<open>Data of a shower\<close>

datatype error = OutOfBounds

text \<open>\<^verbatim>\<open>QList::at(i)\<close>.\<close>

definition QList_at :: "'a list \<Rightarrow> nat \<Rightarrow> error + 'a" where
  "QList_at xs i = (if i < length xs then Inr (xs ! i) else Inl OutOfBounds)"

datatype Status = INVALID | UNDEFINED | INACTIVE | ACTIVE_GENERIC | ACTIVE_CONFIRMED

record Activity =
  year :: int
  zhr :: int
  variable :: "int list"
  start :: QDate
  finish :: QDate
  peak :: QDate

text \<open>
  Modelled from the spec: the struct \<^verbatim>\<open>Activity\<close> is declared in MeteorShower.hpp, which
  is not among the sources. The value-initialised \<^verbatim>\<open>Activity()\<close> is the ``empty/zeroed
  window'' of the spec: zero integers, an empty list and null dates.
\<close>

definition Activity_empty :: Activity where
  "Activity_empty =
     \<lparr>year = 0, zhr = 0, variable = [], start = QDate_null, finish = QDate_null,
      peak = QDate_null\<rparr>"

text \<open>
  One element of the catalog's \<^verbatim>\<open>activity\<close> list: the values of the keys the constructor
  reads, after \<^verbatim>\<open>QVariant::toInt\<close> and \<^verbatim>\<open>QVariant::toString\<close> (0 and the empty string
  for a missing key).
\<close>

record activity_map =
  am_zhr :: int
  am_variable :: string
  am_year :: int
  am_start :: string
  am_finish :: string
  am_peak :: string

text \<open>
  The catalog record. The keys tested with \<^verbatim>\<open>contains\<close> are optional fields; the others
  hold the converted value.
\<close>

record shower_map =
  sm_showerID :: "string option"
  sm_activity :: "activity_map list option"
  sm_radiantAlpha :: "string option"
  sm_radiantDelta :: "string option"
  sm_designation :: string
  sm_speed :: int
  sm_parentObj :: string
  sm_pidx :: real
  sm_driftAlpha :: string
  sm_driftDelta :: string
  sm_colors :: "(string \<times> int) list option"

text \<open>
  The object. \<open>'m\<close> is the type of a meteor (\<^verbatim>\<open>MeteorObj\<close>, another class of the
  application).
\<close>

record 'm MeteorShower =
  m_status :: Status
  m_showerID :: string
  m_designation :: string
  m_speed :: int
  m_rAlphaPeak :: real
  m_rDeltaPeak :: real
  m_driftAlpha :: real
  m_driftDelta :: real
  m_pidx :: real
  m_radiantAlpha :: real
  m_radiantDelta :: real
  m_parentObj :: string
  m_activities :: "Activity list"
  m_activity :: Activity
  m_colors :: "(string \<times> int) list"
  m_activeMeteors :: "'m list"

text \<open>
  The object after the member initialisers. The constructor does not initialise
  \<^verbatim>\<open>m_activity\<close>; \<^verbatim>\<open>update\<close> assigns it before it reads it, and no property below
  depends on its first value.
\<close>

definition MeteorShower_init :: "'m MeteorShower" where
  "MeteorShower_init =
     \<lparr>m_status = INVALID, m_showerID = [], m_designation = [], m_speed = 0,
      m_rAlphaPeak = 0, m_rDeltaPeak = 0, m_driftAlpha = 0, m_driftDelta = 0,
      m_pidx = 0, m_radiantAlpha = 0, m_radiantDelta = 0, m_parentObj = [],
      m_activities = [], m_activity = Activity_empty, m_colors = [],
      m_activeMeteors = []\<rparr>"

subsection \<open>The constructor\<close>

definition genericYear :: int where
  "genericYear = 1000"

text \<open>Lines 82--97: the \<^verbatim>\<open>variable\<close> field; the result is \<^verbatim>\<open>ok\<close> and \<^verbatim>\<open>d.variable\<close>.\<close>

function variable_loop :: "string list \<Rightarrow> nat \<Rightarrow> bool \<Rightarrow> int list \<Rightarrow> (bool \<times> int list)" where
  "variable_loop parts i ok acc =
     (if i < 2 \<and> ok
      then (case QString_toInt (parts ! i) of
              None \<Rightarrow> variable_loop parts (i + 1) False (acc @ [0])
            | Some n \<Rightarrow> variable_loop parts (i + 1) True (acc @ [n]))
      else (ok, acc))"
  by pat_completeness auto
termination
  by (relation "measure (\<lambda>(parts, i, ok, acc). 2 - i)") auto

definition parse_variable :: "int \<Rightarrow> string \<Rightarrow> (bool \<times> int list)" where
  "parse_variable z v =
     (let parts = QString_split (CHR ''-'') v
      in if z = - 1 then variable_loop parts 0 (length parts = 2) []
         else (True, []))"

text \<open>Lines 102--115: one date field, parsed with the year of the record.\<close>

definition parse_date :: "string \<Rightarrow> string \<Rightarrow> QDate" where
  "parse_date field yr =
     QDate_fromString (if field = [] then [] else field @ '' '' @ yr)"

text \<open>Lines 117--130: the years of \<^verbatim>\<open>finish\<close> and \<^verbatim>\<open>peak\<close>.\<close>

definition fix_years :: "Activity \<Rightarrow> Activity" where
  "fix_years d =
     (if isValid (start d) \<and> isValid (finish d) \<and> isValid (peak d)
      then (let d = (if date_gt (start d) (finish d)
                     then d\<lparr>finish := addYears (finish d) 1\<rparr> else d);
                d = (if date_gt (start d) (peak d)
                     then d\<lparr>peak := addYears (peak d) 1\<rparr> else d)
            in d)
      else d)"

text \<open>
  The body of the first loop for one element (lines 75--132): \<open>None\<close> is the early
  \<^verbatim>\<open>return\<close> of line 95.
\<close>

definition parse_activity :: "activity_map \<Rightarrow> Activity option" where
  "parse_activity activityMap =
     (case parse_variable (am_zhr activityMap) (am_variable activityMap) of
        (False, _) \<Rightarrow> None
      | (True, var) \<Rightarrow>
          (let y = am_year activityMap;
               yr = QString_number (if y = 0 then genericYear else y);
               d = \<lparr>year = y, zhr = am_zhr activityMap, variable = var,
                    start = parse_date (am_start activityMap) yr,
                    finish = parse_date (am_finish activityMap) yr,
                    peak = parse_date (am_peak activityMap) yr\<rparr>
           in Some (fix_years d)))"

text \<open>
  The first loop (lines 73--133), with \<^verbatim>\<open>m_activities\<close> as accumulator: \<open>False\<close> with
  the list built so far when an element makes the constructor return.
\<close>

fun build_activities :: "activity_map list \<Rightarrow> Activity list \<Rightarrow> (bool \<times> Activity list)" where
  "build_activities [] acc = (True, acc)"
| "build_activities (ms # rest) acc =
     (case parse_activity ms of
        None \<Rightarrow> (False, acc)
      | Some d \<Rightarrow> build_activities rest (acc @ [d]))"

text \<open>The body of the second loop (lines 140--150) for the element \<open>a\<close>.\<close>

definition fill_activity :: "Activity \<Rightarrow> Activity \<Rightarrow> Activity" where
  "fill_activity g a =
     (let a = (if zhr a = 0 then a\<lparr>zhr := zhr g, variable := variable g\<rparr> else a);
          aux = year a - genericYear
      in a\<lparr>start := (if isValid (start a) then start a else addYears (start g) aux),
           finish := (if isValid (finish a) then finish a else addYears (finish g) aux),
           peak := (if isValid (peak a) then peak a else addYears (peak g) aux)\<rparr>)"

definition dates_valid :: "Activity \<Rightarrow> bool" where
  "dates_valid a = (isValid (start a) \<and> isValid (finish a) \<and> isValid (peak a))"

text \<open>
  The second loop (lines 138--160) over the elements with index \<open>\<ge> 1\<close>: each is
  replaced by its filled value, and the loop stops, with \<open>False\<close>, at the first one
  that keeps an invalid date (the elements after it are left as parsed).
\<close>

fun fill_rest :: "Activity \<Rightarrow> Activity list \<Rightarrow> (bool \<times> Activity list)" where
  "fill_rest g [] = (True, [])"
| "fill_rest g (a # rest) =
     (let a' = fill_activity g a
      in if \<not> dates_valid a' then (False, a' # rest)
         else (case fill_rest g rest of (ok, rest') \<Rightarrow> (ok, a' # rest')))"

text \<open>Lines 162--185.\<close>

definition build_colors :: "(string \<times> int) list option \<Rightarrow> (string \<times> int) list" where
  "build_colors cs =
     (let colors = (case cs of
                      None \<Rightarrow> []
                    | Some l \<Rightarrow> (if sum_list (map snd l) \<noteq> 100 then [] else l))
      in if colors = [] then [(''white'', 100)] else colors)"

text \<open>
  The constructor. \<open>getDecAngle\<close> is \<^verbatim>\<open>StelUtils::getDecAngle\<close>, a function of the
  application that is not among the sources. Line 136 reads \<^verbatim>\<open>m_activities.at(0)\<close>
  whatever the list holds.
\<close>

definition MeteorShower_ctor :: "(string \<Rightarrow> real) \<Rightarrow> shower_map \<Rightarrow> error + 'm MeteorShower" where
  "MeteorShower_ctor getDecAngle m =
     (case (sm_showerID m, sm_activity m, sm_radiantAlpha m, sm_radiantDelta m) of
        (Some showerID, Some activities, Some radiantAlpha, Some radiantDelta) \<Rightarrow>
          (let s = MeteorShower_init
                \<lparr>m_showerID := showerID,
                 m_designation := sm_designation m,
                 m_speed := sm_speed m,
                 m_rAlphaPeak := getDecAngle radiantAlpha,
                 m_rDeltaPeak := getDecAngle radiantDelta,
                 m_driftAlpha := getDecAngle (sm_driftAlpha m) / 5,
                 m_driftDelta := getDecAngle (sm_driftDelta m) / 5,
                 m_pidx := sm_pidx m,
                 m_radiantAlpha := getDecAngle radiantAlpha,
                 m_radiantDelta := getDecAngle radiantDelta,
                 m_parentObj := sm_parentObj m\<rparr>
           in case build_activities activities [] of
                (False, acts) \<Rightarrow> Inr (s\<lparr>m_activities := acts\<rparr>)
              | (True, acts) \<Rightarrow>
                  (case QList_at acts 0 of
                     Inl e \<Rightarrow> Inl e
                   | Inr g \<Rightarrow>
                       (case fill_rest g (tl acts) of
                          (False, rest) \<Rightarrow> Inr (s\<lparr>m_activities := g # rest\<rparr>)
                        | (True, rest) \<Rightarrow>
                            Inr (s\<lparr>m_activities := g # rest,
                                   m_colors := build_colors (sm_colors m),
                                   m_status := UNDEFINED\<rparr>))))
      | _ \<Rightarrow> Inr MeteorShower_init)"

subsection \<open>The collaborators of a tick\<close>

text \<open>
  What \<^verbatim>\<open>update\<close> reads from outside the object during one call: the core
  (\<^verbatim>\<open>StelCore\<close>), the manager (\<^verbatim>\<open>MeteorShowersMgr\<close>), the process-wide random generator
  and the class \<^verbatim>\<open>MeteorObj\<close>. \<open>qrand core i\<close> is the value of the call of \<^verbatim>\<open>qrand()\<close> in
  iteration \<open>i\<close> of the last loop, \<open>new_MeteorObj core i\<close> the object constructed there.
  \<open>qRound_NaN\<close> is the integer that \<^verbatim>\<open>qRound\<close> returns for a NaN (C++ leaves the
  conversion undefined).
\<close>

record 'm StelCore =
  getJD :: real
  getRealTimeSpeed :: bool
  getActiveRadiantOnly :: bool
  qrand :: "nat \<Rightarrow> nat"
  qRound_NaN :: int
  meteor_update :: "real \<Rightarrow> 'm \<Rightarrow> bool \<times> 'm"
  new_MeteorObj :: "nat \<Rightarrow> int \<Rightarrow> real \<Rightarrow> real \<Rightarrow> real \<Rightarrow> (string \<times> int) list \<Rightarrow> 'm"
  isAlive :: "'m \<Rightarrow> bool"

text \<open>The constant of the C library (the value of glibc); \<^verbatim>\<open>qrand()\<close> is never negative.\<close>

definition RAND_MAX :: nat where
  "RAND_MAX = 2147483647"

text \<open>
  \<^verbatim>\<open>qRound\<close> of Qt 5: \<^verbatim>\<open>int(d + 0.5)\<close> for \<open>d \<ge> 0\<close>, and
  \<^verbatim>\<open>int(d - double(int(d-1)) + 0.5) + int(d-1)\<close> below, which is the same floor.
\<close>

definition qRound :: "real \<Rightarrow> int" where
  "qRound d = \<lfloor>d + 1 / 2\<rfloor>"

text \<open>The conversion of a \<^verbatim>\<open>double\<close> to \<^verbatim>\<open>qint64\<close> truncates.\<close>

definition double_to_qint64 :: "real \<Rightarrow> int" where
  "double_to_qint64 x = (if x \<ge> 0 then \<lfloor>x\<rfloor> else \<lceil>x\<rceil>)"

subsection \<open>enabled\<close>

definition enabled :: "bool \<Rightarrow> 'm MeteorShower \<Rightarrow> bool" where
  "enabled activeRadiantOnly s =
     (if m_status s = INVALID then False
      else if m_status s = UNDEFINED then True
      else if activeRadiantOnly
           then (m_status s = ACTIVE_GENERIC \<or> m_status s = ACTIVE_CONFIRMED)
      else True)"

subsection \<open>The activity of a date\<close>

definition in_window :: "QDate \<Rightarrow> Activity \<Rightarrow> bool" where
  "in_window date a = (date_ge date (start a) \<and> date_le date (finish a))"

text \<open>
  \<^verbatim>\<open>hasConfirmedShower\<close>: the loop over the indices \<open>1, 2, ...\<close> of \<^verbatim>\<open>m_activities\<close>.
  \<open>found\<close> is the reference parameter: it is written only on a match.
\<close>

fun confirmed_loop :: "Activity list \<Rightarrow> QDate \<Rightarrow> bool \<Rightarrow> Activity \<times> bool" where
  "confirmed_loop [] date found = (Activity_empty, found)"
| "confirmed_loop (a # rest) date found =
     (if date_ge date (start a) \<and> date_le date (finish a) then (a, True)
      else confirmed_loop rest date found)"

definition hasConfirmedShower :: "Activity list \<Rightarrow> QDate \<Rightarrow> bool \<Rightarrow> Activity \<times> bool" where
  "hasConfirmedShower activities date found = confirmed_loop (drop 1 activities) date found"

text \<open>
  \<^verbatim>\<open>hasGenericShower\<close>, lines 392--412: the start and the finish of the generic window
  \<open>g\<close> set on the year of the date, and \<^verbatim>\<open>found\<close>. Each \<^verbatim>\<open>setDate\<close> reads the month
  and the day of the date it overwrites, so the second pair of calls reads the dates the
  first pair has written.
\<close>

definition generic_alignment :: "Activity \<Rightarrow> QDate \<Rightarrow> Activity \<times> bool" where
  "generic_alignment g date =
     (let yr = year_of date
      in if year_of (start g) \<noteq> year_of (finish g)
         then (let g = g\<lparr>start := QDate_setDate yr (month_of (start g)) (day_of (start g))\<rparr>;
                   g = g\<lparr>finish := QDate_setDate (yr + 1) (month_of (finish g)) (day_of (finish g))\<rparr>;
                   found = (date_ge date (start g) \<and> date_le date (finish g))
               in if \<not> found
                  then (let g = g\<lparr>start := QDate_setDate (yr - 1) (month_of (start g)) (day_of (start g))\<rparr>;
                            g = g\<lparr>finish := QDate_setDate yr (month_of (finish g)) (day_of (finish g))\<rparr>;
                            found = (date_ge date (start g) \<and> date_le date (finish g))
                        in (g, found))
                  else (g, found))
         else (let g = g\<lparr>start := QDate_setDate yr (month_of (start g)) (day_of (start g))\<rparr>;
                   g = g\<lparr>finish := QDate_setDate yr (month_of (finish g)) (day_of (finish g))\<rparr>;
                   found = (date_ge date (start g) \<and> date_le date (finish g))
               in (g, found)))"

text \<open>\<^verbatim>\<open>hasGenericShower\<close>: element 0 of the list, aligned, with its peak (lines 414--422).\<close>

definition hasGenericShower :: "Activity list \<Rightarrow> QDate \<Rightarrow> error + (Activity \<times> bool)" where
  "hasGenericShower activities date =
     (case QList_at activities 0 of
        Inl e \<Rightarrow> Inl e
      | Inr g0 \<Rightarrow>
         (let peakOnStart = (year_of (peak g0) = year_of (start g0))
          in case generic_alignment g0 date of
               (g, found) \<Rightarrow>
                 if found
                 then Inr (g\<lparr>year := year_of (start g),
                             peak := QDate_setDate
                                       (if peakOnStart then year_of (start g) else year_of (finish g))
                                       (month_of (peak g)) (day_of (peak g))\<rparr>, True)
                 else Inr (Activity_empty, False)))"

text \<open>Lines 229--244 of \<^verbatim>\<open>update\<close>: status and activity of the current date.\<close>

definition resolve_activity :: "QDate \<Rightarrow> 'm MeteorShower \<Rightarrow> error + 'm MeteorShower" where
  "resolve_activity currentDate s =
     (let s = s\<lparr>m_status := INACTIVE\<rparr>
      in case hasConfirmedShower (m_activities s) currentDate False of
           (a, found) \<Rightarrow>
             (let s = s\<lparr>m_activity := a\<rparr>
              in if found then Inr (s\<lparr>m_status := ACTIVE_CONFIRMED\<rparr>)
                 else (case hasGenericShower (m_activities s) currentDate of
                         Inl e \<Rightarrow> Inl e
                       | Inr (a, found) \<Rightarrow>
                           (let s = s\<lparr>m_activity := a\<rparr>
                            in if found then Inr (s\<lparr>m_status := ACTIVE_GENERIC\<rparr>)
                               else Inr s))))"

subsection \<open>calculateZHR\<close>

text \<open>
  The factor \<^verbatim>\<open>qExp(-qPow(currentJD - peakJD, 2) / (sd * sd))\<close>. With \<open>sd = 0\<close> the
  quotient is \<open>-\<infinity>\<close> and the factor 0, unless the numerator is 0 as well: then it is
  a NaN (\<open>None\<close>).
\<close>

definition gauss_factor :: "real \<Rightarrow> real \<Rightarrow> real option" where
  "gauss_factor x sd =
     (if sd * sd = 0 then (if x\<^sup>2 = 0 then None else Some 0)
      else Some (exp (- (x\<^sup>2) / (sd * sd))))"

definition calculateZHR :: "int \<Rightarrow> Activity \<Rightarrow> real \<Rightarrow> error + int" where
  "calculateZHR nan a currentJD =
     (let startJD = real_of_int (toJulianDay (start a));
          finishJD = real_of_int (toJulianDay (finish a));
          peakJD = real_of_int (toJulianDay (peak a));
          sd = (if currentJD \<ge> startJD \<and> currentJD < peakJD
                then (peakJD - startJD) / 2
                else (finishJD - peakJD) / 2)
      in case (if zhr a = - 1 then QList_at (variable a) 1 else Inr (zhr a)) of
           Inl e \<Rightarrow> Inl e
         | Inr maxZHR \<Rightarrow>
            (case (if zhr a = - 1 then QList_at (variable a) 0 else Inr 0) of
               Inl e \<Rightarrow> Inl e
             | Inr minZHR \<Rightarrow>
                (case gauss_factor (currentJD - peakJD) sd of
                   None \<Rightarrow> Inr nan
                 | Some f \<Rightarrow> Inr (qRound (real_of_int maxZHR * f + real_of_int minZHR)))))"

subsection \<open>update\<close>

text \<open>Lines 252--260: the radiant, with the drift since the peak.\<close>

definition fix_radiant :: "real \<Rightarrow> 'm MeteorShower \<Rightarrow> 'm MeteorShower" where
  "fix_radiant currentJD s =
     (let s = s\<lparr>m_radiantAlpha := m_rAlphaPeak s, m_radiantDelta := m_rDeltaPeak s\<rparr>
      in if m_status s \<noteq> INACTIVE
         then (let daysToPeak = currentJD - real_of_int (toJulianDay (peak (m_activity s)))
               in s\<lparr>m_radiantAlpha := m_radiantAlpha s + m_driftAlpha s * daysToPeak,
                    m_radiantDelta := m_radiantDelta s + m_driftDelta s * daysToPeak\<rparr>)
         else s)"

text \<open>
  Lines 262--269: every meteor is updated, in order, and leaves the list when its
  \<^verbatim>\<open>update\<close> returns false.
\<close>

definition update_meteors :: "'m StelCore \<Rightarrow> real \<Rightarrow> 'm list \<Rightarrow> 'm list" where
  "update_meteors core deltaTime ms =
     map snd (filter fst (map (meteor_update core deltaTime) ms))"

definition age_meteors :: "'m StelCore \<Rightarrow> real \<Rightarrow> 'm MeteorShower \<Rightarrow> 'm MeteorShower" where
  "age_meteors core deltaTime s =
     s\<lparr>m_activeMeteors := update_meteors core deltaTime (m_activeMeteors s)\<rparr>"

text \<open>Lines 295--304: the body of the last loop.\<close>

definition spawn_step :: "'m StelCore \<Rightarrow> real \<Rightarrow> 'm MeteorShower \<Rightarrow> nat \<Rightarrow> 'm MeteorShower" where
  "spawn_step core rate s i =
     (let prob = real (qrand core i) / real RAND_MAX
      in if prob < rate
         then (let m = new_MeteorObj core i (m_speed s) (m_radiantAlpha s) (m_radiantDelta s)
                         (m_pidx s) (m_colors s)
               in if isAlive core m then s\<lparr>m_activeMeteors := m_activeMeteors s @ [m]\<rparr>
                  else s)
         else s)"

text \<open>Lines 285--305.\<close>

definition meteorsPerFrame :: "int \<Rightarrow> real \<Rightarrow> real" where
  "meteorsPerFrame currentZHR deltaTime = real_of_int currentZHR * deltaTime / 3600"

definition maxThisFrame :: "real \<Rightarrow> int" where
  "maxThisFrame mpf = (let maxMpf = qRound mpf in if maxMpf < 1 then 1 else maxMpf)"

definition spawn_meteors :: "'m StelCore \<Rightarrow> int \<Rightarrow> real \<Rightarrow> 'm MeteorShower \<Rightarrow> 'm MeteorShower" where
  "spawn_meteors core currentZHR deltaTime s =
     (let mpf = meteorsPerFrame currentZHR deltaTime;
          maxMpf = maxThisFrame mpf;
          rate = mpf / real_of_int maxMpf
      in foldl (spawn_step core rate) s [0 ..< nat maxMpf])"

definition update :: "'m StelCore \<Rightarrow> real \<Rightarrow> 'm MeteorShower \<Rightarrow> error + 'm MeteorShower" where
  "update core deltaTime s =
     (if m_status s = INVALID then Inr s
      else (let currentJD = getJD core;
                currentDate = QDate_fromJulianDay (double_to_qint64 currentJD)
            in case resolve_activity currentDate s of
                 Inl e \<Rightarrow> Inl e
               | Inr s \<Rightarrow>
                   if \<not> enabled (getActiveRadiantOnly core) s then Inr s
                   else (let s = fix_radiant currentJD s;
                             s = age_meteors core deltaTime s
                         in if \<not> getRealTimeSpeed core then Inr s
                            else (case calculateZHR (qRound_NaN core) (m_activity s) currentJD of
                                    Inl e \<Rightarrow> Inl e
                                  | Inr currentZHR \<Rightarrow>
                                      if currentZHR < 1 then Inr s
                                      else Inr (spawn_meteors core currentZHR deltaTime s)))))"

text \<open>A sequence of ticks: each call of \<^verbatim>\<open>update\<close> with its core and elapsed time.\<close>

fun updates :: "('m StelCore \<times> real) list \<Rightarrow> 'm MeteorShower \<Rightarrow> error + 'm MeteorShower" where
  "updates [] s = Inr s"
| "updates ((core, deltaTime) # ticks) s =
     (case update core deltaTime s of
        Inl e \<Rightarrow> Inl e
      | Inr s' \<Rightarrow> updates ticks s')"

subsection \<open>Predicates of the specification and example inputs\<close>

text \<open>A mandatory key of the catalog record is missing.\<close>

definition mandatory_missing :: "shower_map \<Rightarrow> bool" where
  "mandatory_missing m =
     (sm_showerID m = None \<or> sm_activity m = None \<or> sm_radiantAlpha m = None \<or>
      sm_radiantDelta m = None)"

text \<open>The \<^verbatim>\<open>variable\<close> string is exactly two integers, separated by a dash.\<close>

definition variable_ok :: "string \<Rightarrow> bool" where
  "variable_ok v =
     (let parts = QString_split (CHR ''-'') v
      in length parts = 2 \<and> list_all (\<lambda>p. QString_toInt p \<noteq> None) parts)"

text \<open>Some activity record has \<open>zhr = -1\<close> and a malformed \<^verbatim>\<open>variable\<close>.\<close>

definition malformed_variable :: "shower_map \<Rightarrow> bool" where
  "malformed_variable m =
     (case sm_activity m of
        None \<Rightarrow> False
      | Some ms \<Rightarrow> list_ex (\<lambda>am. am_zhr am = - 1 \<and> \<not> variable_ok (am_variable am)) ms)"

text \<open>A window of index \<open>\<ge> 1\<close> of the object holds an invalid date.\<close>

definition invalid_confirmed_window :: "'m MeteorShower \<Rightarrow> bool" where
  "invalid_confirmed_window s = list_ex (\<lambda>a. \<not> dates_valid a) (drop 1 (m_activities s))"

text \<open>
  Example 1 of the specification: a generic window from January 1 to January 20 with its
  peak on January 10 and a rate of 10, in a record with all mandatory keys.
\<close>

definition ex_window :: activity_map where
  "ex_window =
     \<lparr>am_zhr = 10, am_variable = [], am_year = 0, am_start = ''01.01'',
      am_finish = ''01.20'', am_peak = ''01.10''\<rparr>"

definition ex_shower :: shower_map where
  "ex_shower =
     \<lparr>sm_showerID = Some ''QUA'', sm_activity = Some [ex_window],
      sm_radiantAlpha = Some ''230'', sm_radiantDelta = Some ''49'',
      sm_designation = ''Quadrantids'', sm_speed = 41, sm_parentObj = [], sm_pidx = 2,
      sm_driftAlpha = ''4'', sm_driftDelta = ''-1'', sm_colors = None\<rparr>"

definition ex_core :: "unit StelCore" where
  "ex_core =
     \<lparr>getJD = 2457033, getRealTimeSpeed = True, getActiveRadiantOnly = True,
      qrand = (\<lambda>i. 0), qRound_NaN = 0, meteor_update = (\<lambda>dt m. (True, m)),
      new_MeteorObj = (\<lambda>i speed alpha delta pidx colors. ()), isAlive = (\<lambda>m. True)\<rparr>"

text \<open>
  A confirmed window of 2015 that gives only its start and a rate of 0, after the
  generic window of Example 1.
\<close>

definition ex_confirmed :: activity_map where
  "ex_confirmed =
     \<lparr>am_zhr = 0, am_variable = [], am_year = 2015, am_start = ''01.02'',
      am_finish = [], am_peak = []\<rparr>"

definition ex_shower2 :: shower_map where
  "ex_shower2 = ex_shower\<lparr>sm_activity := Some [ex_window, ex_confirmed]\<rparr>"

text \<open>The object that the constructor builds from this record.\<close>

definition ex_generic_activity :: Activity where
  "ex_generic_activity =
     \<lparr>year = 0, zhr = 10, variable = [], start = QDate_ymd 1000 1 1,
      finish = QDate_ymd 1000 1 20, peak = QDate_ymd 1000 1 10\<rparr>"

definition ex_confirmed_activity :: Activity where
  "ex_confirmed_activity =
     \<lparr>year = 2015, zhr = 10, variable = [], start = QDate_ymd 2015 1 2,
      finish = QDate_ymd 2015 1 20, peak = QDate_ymd 2015 1 10\<rparr>"

definition ex_activities :: "Activity list" where
  "ex_activities = [ex_generic_activity, ex_confirmed_activity]"

definition ex_state :: "unit MeteorShower" where
  "ex_state =
     MeteorShower_init
       \<lparr>m_status := UNDEFINED, m_showerID := ''QUA'', m_designation := ''Quadrantids'',
        m_speed := 41, m_pidx := 2, m_activities := ex_activities,
        m_colors := [(''white'', 100)]\<rparr>"

text \<open>
  The variable range of a window is there when its rate is the sentinel \<open>-1\<close>; in a
  well-formed object this holds for every window, and the window list is not empty.
\<close>

definition variable_wf :: "Activity \<Rightarrow> bool" where
  "variable_wf a = (zhr a = - 1 \<longrightarrow> length (variable a) = 2)"

definition wf_shower :: "'m MeteorShower \<Rightarrow> bool" where
  "wf_shower s = (m_activities s \<noteq> [] \<and> list_all variable_wf (m_activities s))"

text \<open>A tick on July 1, 2015, with the ``active radiants only'' setting off.\<close>

definition ex_core_july :: "unit StelCore" where
  "ex_core_july = ex_core\<lparr>getJD := 2457205, getActiveRadiantOnly := False\<rparr>"

text \<open>A tick at the instant of \<open>core\<close>: the same current time and setting, no elapsed time.\<close>

definition same_instant :: "'m StelCore \<Rightarrow> 'm StelCore \<times> real \<Rightarrow> bool" where
  "same_instant core t =
     (getJD (fst t) = getJD core \<and> getActiveRadiantOnly (fst t) = getActiveRadiantOnly core \<and>
      snd t = 0)"

text \<open>The meteors after the ticks, when each tick only updates them.\<close>

fun age_all :: "('m StelCore \<times> real) list \<Rightarrow> 'm list \<Rightarrow> 'm list" where
  "age_all [] ms = ms"
| "age_all ((core, deltaTime) # ticks) ms = age_all ticks (update_meteors core deltaTime ms)"

text \<open>
  The object already holds the status, the activity and the radiant of the instant of
  \<open>core\<close>.
\<close>

definition settled :: "'m StelCore \<Rightarrow> 'm MeteorShower \<Rightarrow> bool" where
  "settled core s =
     (wf_shower s \<and> m_status s \<noteq> INVALID \<and>
      resolve_activity (QDate_fromJulianDay (double_to_qint64 (getJD core))) s = Inr s \<and>
      (enabled (getActiveRadiantOnly core) s \<longrightarrow> fix_radiant (getJD core) s = s))"

text \<open>
  The meteors that the last loop of \<^verbatim>\<open>update\<close> adds in \<open>n\<close> iterations: in the order of
  the draws, the meteor constructed at draw \<open>i\<close>, for every draw whose value
  \<^verbatim>\<open>qrand() / RAND_MAX\<close> is below the rate and whose meteor is alive.
\<close>

definition spawned :: "'m StelCore \<Rightarrow> real \<Rightarrow> 'm MeteorShower \<Rightarrow> nat \<Rightarrow> 'm list" where
  "spawned core rate s n =
     filter (isAlive core)
       (map (\<lambda>i. new_MeteorObj core i (m_speed s) (m_radiantAlpha s) (m_radiantDelta s)
                    (m_pidx s) (m_colors s))
          (filter (\<lambda>i. real (qrand core i) / real RAND_MAX < rate) [0 ..< n]))"

text \<open>
  A storm: the example object with one generic window of rate 5040, and its activity on
  January 10, 2015.
\<close>

definition ex_storm :: "unit MeteorShower" where
  "ex_storm =
     ex_state\<lparr>m_activities :=
        [\<lparr>year = 0, zhr = 5040, variable = [], start = QDate_ymd 1000 1 1,
          finish = QDate_ymd 1000 1 20, peak = QDate_ymd 1000 1 10\<rparr>]\<rparr>"

definition ex_storm_activity :: Activity where
  "ex_storm_activity =
     \<lparr>year = 2015, zhr = 5040, variable = [], start = QDate_ymd 2015 1 1,
      finish = QDate_ymd 2015 1 20, peak = QDate_ymd 2015 1 10\<rparr>"

text \<open>
  The rate model in the words of the specification: the amplitude, the floor, and the
  standard deviation at the time \<open>t\<close>, half the span from the start to the peak before
  the peak and half the span from the peak to the finish from the peak on. Times are
  Julian days.
\<close>

definition rate_amplitude :: "Activity \<Rightarrow> int" where
  "rate_amplitude a = (if zhr a = - 1 then variable a ! 1 else zhr a)"

definition rate_floor :: "Activity \<Rightarrow> int" where
  "rate_floor a = (if zhr a = - 1 then variable a ! 0 else 0)"

definition rate_sd :: "Activity \<Rightarrow> real \<Rightarrow> real" where
  "rate_sd a t =
     (if t < real_of_int (toJulianDay (peak a))
      then (real_of_int (toJulianDay (peak a)) - real_of_int (toJulianDay (start a))) / 2
      else (real_of_int (toJulianDay (finish a)) - real_of_int (toJulianDay (peak a))) / 2)"

text \<open>The generic window of Example 1, set on the year 2015.\<close>

definition ex_generic_2015 :: Activity where
  "ex_generic_2015 =
     \<lparr>year = 2015, zhr = 10, variable = [], start = QDate_ymd 2015 1 1,
      finish = QDate_ymd 2015 1 20, peak = QDate_ymd 2015 1 10\<rparr>"

text \<open>
  The two parts of Qt's Julian day formula: the days before the year \<open>y\<close> of the
  calendar that starts in March, and the days before the month \<open>m\<close> of such a year.
\<close>

definition year_days :: "int \<Rightarrow> int" where
  "year_days y = 365 * y + y div 4 - y div 100 + y div 400"

definition month_offset :: "int \<Rightarrow> int" where
  "month_offset m = (153 * m + 2) div 5"

text \<open>
  The date that a field of a catalog record gives, in the year of the record; the record
  gives the three dates of its window, and each is a date; and a date pushed forward one
  year when it precedes the start.
\<close>

definition record_date :: "activity_map \<Rightarrow> string \<Rightarrow> QDate" where
  "record_date am field =
     parse_date field (QString_number (if am_year am = 0 then genericYear else am_year am))"

definition dates_given :: "activity_map \<Rightarrow> bool" where
  "dates_given am =
     (isValid (record_date am (am_start am)) \<and> isValid (record_date am (am_finish am)) \<and>
      isValid (record_date am (am_peak am)))"

definition pushed_forward :: "QDate \<Rightarrow> QDate \<Rightarrow> QDate" where
  "pushed_forward s d = (if date_gt s d then addYears d 1 else d)"

text \<open>
  A shower across the new year, from December 28 to January 12 with its peak on January
  4, and a confirmed window of 2014 that gives only its peak, January 3.
\<close>

definition ex_spanning_window :: activity_map where
  "ex_spanning_window =
     \<lparr>am_zhr = 120, am_variable = [], am_year = 0, am_start = ''12.28'',
      am_finish = ''01.12'', am_peak = ''01.04''\<rparr>"

definition ex_peak_only_window :: activity_map where
  "ex_peak_only_window =
     \<lparr>am_zhr = 0, am_variable = [], am_year = 2014, am_start = [],
      am_finish = [], am_peak = ''01.03''\<rparr>"

definition ex_spanning_shower :: shower_map where
  "ex_spanning_shower =
     ex_shower\<lparr>sm_activity := Some [ex_spanning_window, ex_peak_only_window]\<rparr>"

text \<open>
  The resolution against the generic window in the words of the specification. A date is
  projected onto a year by keeping its month and its day. When the original start and
  finish of the window are in different years, the alignment of the start on the year of
  the date and the finish on the next year is tried first, then the alignment of the
  start on the year before and the finish on the year of the date; otherwise both are
  projected onto the year of the date. The first alignment whose range contains the date
  is the result, with its peak projected onto the year of the start when the original
  peak and start were in the same year, and onto the year of the finish otherwise.
\<close>

definition project :: "QDate \<Rightarrow> int \<Rightarrow> QDate" where
  "project d y = QDate_setDate y (month_of d) (day_of d)"

definition generic_resolution_spec :: "Activity \<Rightarrow> QDate \<Rightarrow> Activity \<times> bool" where
  "generic_resolution_spec g date =
     (let y = year_of date;
          aligned = (\<lambda>ys yf.
            g\<lparr>year := year_of (project (start g) ys),
              start := project (start g) ys,
              finish := project (finish g) yf,
              peak := project (peak g)
                        (if year_of (peak g) = year_of (start g)
                         then year_of (project (start g) ys)
                         else year_of (project (finish g) yf))\<rparr>)
      in if year_of (start g) \<noteq> year_of (finish g)
         then (if in_window date (aligned y (y + 1)) then (aligned y (y + 1), True)
               else if in_window date (aligned (y - 1) y) then (aligned (y - 1) y, True)
               else (Activity_empty, False))
         else (if in_window date (aligned y y) then (aligned y y, True)
               else (Activity_empty, False)))"

text \<open>
  Example 2 of the specification: the generic window from December 20 to January 5, as
  the constructor stores it.
\<close>

definition ex_dec_jan :: Activity where
  "ex_dec_jan =
     \<lparr>year = 0, zhr = 10, variable = [], start = QDate_ymd 1000 12 20,
      finish = QDate_ymd 1001 1 5, peak = QDate_ymd 1000 12 25\<rparr>"

section \<open>Properties\<close>

subsection \<open>The loops of the constructor\<close>

lemma build_activities_True:
  "build_activities ms acc = (True, acts) \<longleftrightarrow>
     (\<exists>ds. map parse_activity ms = map Some ds \<and> acts = acc @ ds)"
proof (induction ms arbitrary: acc)
  case Nil
  then show ?case by auto
next
  case (Cons a ms)
  show ?case
  proof (cases "parse_activity a")
    case None
    then show ?thesis by auto
  next
    case (Some d)
    show ?thesis
      apply (simp add: Some Cons.IH)
      apply (auto simp: map_eq_Cons_conv)
      done
  qed
qed

lemma build_activities_False:
  "(\<exists>acts. build_activities ms acc = (False, acts)) \<longleftrightarrow>
     (\<exists>a \<in> set ms. parse_activity a = None)"
  by (induction ms arbitrary: acc) (auto split: option.splits)

lemma fill_rest_True:
  "fill_rest g as = (True, bs) \<longleftrightarrow>
     (bs = map (fill_activity g) as \<and> (\<forall>a \<in> set as. dates_valid (fill_activity g a)))"
proof (induction as arbitrary: bs)
  case Nil
  then show ?case by auto
next
  case (Cons a as)
  obtain ok rest where r: "fill_rest g as = (ok, rest)"
    by (cases "fill_rest g as")
  show ?case
  proof (cases ok)
    case True
    with r Cons.IH[of rest] show ?thesis by (auto simp: Let_def)
  next
    case False
    with r Cons.IH[of "map (fill_activity g) as"] show ?thesis by (auto simp: Let_def)
  qed
qed

lemma ctor_missing:
  "mandatory_missing m \<Longrightarrow>
     (MeteorShower_ctor gd m :: error + 'm MeteorShower) = Inr MeteorShower_init"
  by (auto simp: MeteorShower_ctor_def mandatory_missing_def split: option.splits)

lemma ctor_cases:
  assumes "sm_showerID m = Some sid" "sm_activity m = Some ms"
    "sm_radiantAlpha m = Some ra" "sm_radiantDelta m = Some rd"
  shows "case build_activities ms [] of
           (False, acts) \<Rightarrow>
             (\<exists>s. (MeteorShower_ctor gd m :: error + 'm MeteorShower) = Inr s \<and>
                  m_status s = INVALID \<and> m_activities s = acts)
         | (True, []) \<Rightarrow> (MeteorShower_ctor gd m :: error + 'm MeteorShower) = Inl OutOfBounds
         | (True, g # rest) \<Rightarrow>
             (case fill_rest g rest of
                (False, rest') \<Rightarrow>
                  (\<exists>s. (MeteorShower_ctor gd m :: error + 'm MeteorShower) = Inr s \<and>
                       m_status s = INVALID \<and> m_activities s = g # rest')
              | (True, rest') \<Rightarrow>
                  (\<exists>s. (MeteorShower_ctor gd m :: error + 'm MeteorShower) = Inr s \<and>
                       m_status s = UNDEFINED \<and> m_activities s = g # rest' \<and>
                       m_activeMeteors s = [] \<and>
                       m_radiantAlpha s = m_rAlphaPeak s \<and>
                       m_radiantDelta s = m_rDeltaPeak s))"
  using assms
  by (auto simp: MeteorShower_ctor_def MeteorShower_init_def QList_at_def
      split: prod.splits bool.splits list.splits)

text \<open>A constructed object that is not INVALID: what the record and the object hold.\<close>

lemma ctor_valid:
  assumes "(MeteorShower_ctor gd m :: error + 'm MeteorShower) = Inr s"
    and "m_status s \<noteq> INVALID"
  shows "\<exists>ms g ds. sm_activity m = Some ms \<and>
           map parse_activity ms = map Some (g # ds) \<and>
           m_activities s = g # map (fill_activity g) ds \<and>
           (\<forall>a \<in> set ds. dates_valid (fill_activity g a)) \<and>
           m_status s = UNDEFINED \<and> m_activeMeteors s = [] \<and>
           m_radiantAlpha s = m_rAlphaPeak s \<and> m_radiantDelta s = m_rDeltaPeak s"
proof (cases "mandatory_missing m")
  case True
  from assms(1) ctor_missing[where ?'m = 'm, OF True, of gd] have "s = MeteorShower_init"
    by simp
  with assms(2) show ?thesis
    by (simp add: MeteorShower_init_def)
next
  case False
  then obtain sid ms ra rd where k: "sm_showerID m = Some sid" "sm_activity m = Some ms"
    "sm_radiantAlpha m = Some ra" "sm_radiantDelta m = Some rd"
    by (auto simp: mandatory_missing_def)
  obtain ok acts where b: "build_activities ms [] = (ok, acts)"
    by (cases "build_activities ms []")
  note c = ctor_cases[where ?'m = 'm, OF k, of gd]
  show ?thesis
  proof (cases ok)
    case False
    with b c assms show ?thesis by auto
  next
    case True
    with b have p: "map parse_activity ms = map Some acts"
      by (simp add: build_activities_True)
    show ?thesis
    proof (cases acts)
      case Nil
      with True b c assms show ?thesis by auto
    next
      case (Cons g rest)
      obtain ok' rest' where f: "fill_rest g rest = (ok', rest')"
        by (cases "fill_rest g rest")
      show ?thesis
      proof (cases ok')
        case False
        with f Cons True b c assms show ?thesis by auto
      next
        case True
        with f have "rest' = map (fill_activity g) rest"
          and "\<forall>a \<in> set rest. dates_valid (fill_activity g a)"
          by (simp_all add: fill_rest_True)
        with f Cons True \<open>ok\<close> b c assms p k show ?thesis by auto
      qed
    qed
  qed
qed

subsection \<open>An empty activity list\<close>

lemma build_activities_Nil:
  "build_activities ms [] = (True, []) \<longleftrightarrow> ms = []"
  by (auto simp: build_activities_True)

text \<open>
  Claim C9. When the four mandatory keys are present, the constructor reads element 0
  of the activity list it has built, whatever that list holds. It reads out of bounds
  exactly when the mandatory keys are present and the \<^verbatim>\<open>activity\<close> entry is an empty
  list; such a record is not turned into an INVALID object. Every other record gives an
  object.
\<close>

theorem ctor_empty_activity_out_of_bounds:
  "(MeteorShower_ctor gd m :: error + 'm MeteorShower) = Inl OutOfBounds \<longleftrightarrow>
     (sm_showerID m \<noteq> None \<and> sm_activity m = Some [] \<and> sm_radiantAlpha m \<noteq> None \<and>
      sm_radiantDelta m \<noteq> None)"
proof (cases "mandatory_missing m")
  case True
  with ctor_missing[where ?'m = 'm, OF True, of gd] show ?thesis
    by (auto simp: mandatory_missing_def)
next
  case False
  then obtain sid ms ra rd where k: "sm_showerID m = Some sid" "sm_activity m = Some ms"
    "sm_radiantAlpha m = Some ra" "sm_radiantDelta m = Some rd"
    by (auto simp: mandatory_missing_def)
  have "(MeteorShower_ctor gd m :: error + 'm MeteorShower) = Inl OutOfBounds \<longleftrightarrow>
          build_activities ms [] = (True, [])"
    using k
    by (auto simp: MeteorShower_ctor_def QList_at_def Let_def
        split: prod.splits bool.splits if_splits)
  with k show ?thesis
    by (simp add: build_activities_Nil)
qed

theorem ctor_empty_activity_out_of_bounds_witness:
  "(MeteorShower_ctor (\<lambda>a. 0) (ex_shower\<lparr>sm_activity := Some []\<rparr>)
      :: error + unit MeteorShower) = Inl OutOfBounds"
  using ctor_empty_activity_out_of_bounds
          [of "\<lambda>a. 0" "ex_shower\<lparr>sm_activity := Some []\<rparr>", where ?'m = unit]
  by (simp add: ex_shower_def)

subsection \<open>Parsing one activity record\<close>

lemma variable_loop_unroll:
  "variable_loop parts 0 ok [] =
     (if ok then (case QString_toInt (parts ! 0) of
                    None \<Rightarrow> (False, [0])
                  | Some a \<Rightarrow> (case QString_toInt (parts ! 1) of
                                None \<Rightarrow> (False, [a, 0])
                              | Some b \<Rightarrow> (True, [a, b])))
      else (False, []))"
  by (simp split: option.splits)

lemma list_all_two:
  "length parts = 2 \<Longrightarrow> list_all P parts \<longleftrightarrow> P (parts ! 0) \<and> P (parts ! 1)"
  by (cases parts; cases "tl parts") auto

lemma parse_variable_ok:
  "fst (parse_variable z v) \<longleftrightarrow> (z = - 1 \<longrightarrow> variable_ok v)"
  by (auto simp: parse_variable_def variable_ok_def Let_def variable_loop_unroll list_all_two
      split: option.splits)

lemma parse_variable_length:
  "parse_variable z v = (True, var) \<Longrightarrow> (if z = - 1 then length var = 2 else var = [])"
  by (auto simp: parse_variable_def Let_def variable_loop_unroll
      split: option.splits if_splits)

lemma fix_years_fields [simp]:
  "zhr (fix_years d) = zhr d" "year (fix_years d) = year d"
  "variable (fix_years d) = variable d" "start (fix_years d) = start d"
  by (simp_all add: fix_years_def Let_def)

lemma parse_activity_None:
  "parse_activity am = None \<longleftrightarrow> (am_zhr am = - 1 \<and> \<not> variable_ok (am_variable am))"
  using parse_variable_ok[of "am_zhr am" "am_variable am"]
  by (auto simp: parse_activity_def Let_def split: prod.splits bool.splits)

lemma parse_activity_Some:
  assumes "parse_activity am = Some d"
  shows "zhr d = am_zhr am" "year d = am_year am"
    "zhr d = - 1 \<longrightarrow> length (variable d) = 2"
  using assms parse_variable_length[of "am_zhr am" "am_variable am"]
  by (auto simp: parse_activity_def Let_def split: prod.splits bool.splits if_splits)

lemmas parse_eval =
  parse_activity_def parse_variable_def parse_date_def QString_number_def genericYear_def
  QDate_fromString_def digit_val_def QDate_setDate_def isValid_ymd_def monthDays_def
  fix_years_def date_gt_def julianDayFromDate_def

lemmas ctor_eval =
  MeteorShower_ctor_def QList_at_def fill_activity_def dates_valid_def fixedDate_def
  daysInMonth_def isLeapYear_def Let_def genericYear_def QDate_setDate_def isValid_ymd_def
  monthDays_def

lemma parse_ex_window:
  "parse_activity ex_window =
     Some \<lparr>year = 0, zhr = 10, variable = [], start = QDate_ymd 1000 1 1,
           finish = QDate_ymd 1000 1 20, peak = QDate_ymd 1000 1 10\<rparr>"
  by (simp add: ex_window_def parse_eval)

lemma parse_ex_confirmed:
  "parse_activity ex_confirmed =
     Some \<lparr>year = 2015, zhr = 0, variable = [], start = QDate_ymd 2015 1 2,
           finish = QDate_null, peak = QDate_null\<rparr>"
  by (simp add: ex_confirmed_def parse_eval)

subsection \<open>Construction fails closed\<close>

lemma ctor_out_of_bounds_iff:
  "(MeteorShower_ctor gd m :: error + 'm MeteorShower) = Inl e \<longleftrightarrow>
     (\<not> mandatory_missing m \<and> sm_activity m = Some [])"
proof (cases "mandatory_missing m")
  case True
  with ctor_missing[where ?'m = 'm, OF True, of gd] show ?thesis
    by auto
next
  case False
  then obtain sid ms ra rd where k: "sm_showerID m = Some sid" "sm_activity m = Some ms"
    "sm_radiantAlpha m = Some ra" "sm_radiantDelta m = Some rd"
    by (auto simp: mandatory_missing_def)
  have "(MeteorShower_ctor gd m :: error + 'm MeteorShower) = Inl e \<longleftrightarrow>
          build_activities ms [] = (True, [])"
    using k
    by (cases e) (auto simp: MeteorShower_ctor_def QList_at_def Let_def
        split: prod.splits bool.splits if_splits)
  with k False show ?thesis
    by (simp add: build_activities_Nil)
qed

lemma enabled_INVALID: "m_status s = INVALID \<Longrightarrow> \<not> enabled b s"
  by (simp add: enabled_def)

lemma update_INVALID: "m_status s = INVALID \<Longrightarrow> update core dt s = Inr s"
  by (simp add: update_def)

lemma updates_INVALID: "m_status s = INVALID \<Longrightarrow> updates ticks s = Inr s"
  by (induction ticks) (auto simp: update_INVALID)

lemma ctor_valid_record:
  assumes "(MeteorShower_ctor gd m :: error + 'm MeteorShower) = Inr s"
    and "m_status s \<noteq> INVALID"
  shows "\<not> mandatory_missing m" "\<not> malformed_variable m" "\<not> invalid_confirmed_window s"
proof -
  from ctor_valid[OF assms] obtain ms g ds where
    k: "sm_activity m = Some ms" "map parse_activity ms = map Some (g # ds)"
       "m_activities s = g # map (fill_activity g) ds"
       "\<forall>a \<in> set ds. dates_valid (fill_activity g a)"
    by blast
  show "\<not> mandatory_missing m"
  proof
    assume mm: "mandatory_missing m"
    from assms(1) ctor_missing[where ?'m = 'm, OF mm, of gd] have "s = MeteorShower_init"
      by simp
    with assms(2) show False by (simp add: MeteorShower_init_def)
  qed
  have "\<forall>a \<in> set ms. parse_activity a \<noteq> None"
  proof
    fix a assume "a \<in> set ms"
    then have "parse_activity a \<in> set (map parse_activity ms)" by simp
    with k(2) show "parse_activity a \<noteq> None" by auto
  qed
  then show "\<not> malformed_variable m"
    using k(1) by (auto simp: malformed_variable_def list_ex_iff parse_activity_None)
  show "\<not> invalid_confirmed_window s"
    using k(3,4) by (auto simp: invalid_confirmed_window_def list_ex_iff)
qed

text \<open>
  Claim C1, as amended. If a mandatory key is missing, or an activity record has
  \<open>zhr = -1\<close> and a \<^verbatim>\<open>variable\<close> that is not exactly two integers, the constructor
  returns an object; and whenever it returns an object for such a record, or an object
  in which a window of index \<open>\<ge> 1\<close> holds an invalid date, the status of the object is
  INVALID, \<^verbatim>\<open>enabled\<close> is false whatever the setting, and every sequence of calls of
  \<^verbatim>\<open>update\<close> leaves the object as it is: no meteor is ever added. The dates of the
  generic window, of index 0, are not examined.
\<close>

theorem construction_fails_closed:
  "(mandatory_missing m \<or> malformed_variable m \<longrightarrow>
      (\<exists>s :: 'm MeteorShower. MeteorShower_ctor gd m = Inr s)) \<and>
   (\<forall>s :: 'm MeteorShower.
      MeteorShower_ctor gd m = Inr s \<and>
      (mandatory_missing m \<or> malformed_variable m \<or> invalid_confirmed_window s) \<longrightarrow>
      m_status s = INVALID \<and> (\<forall>b. \<not> enabled b s) \<and>
      (\<forall>ticks. updates ticks s = Inr s))"
proof (intro conjI impI allI)
  assume h: "mandatory_missing m \<or> malformed_variable m"
  have "\<not> (\<not> mandatory_missing m \<and> sm_activity m = Some [])"
    using h by (auto simp: malformed_variable_def)
  then have "\<forall>e. (MeteorShower_ctor gd m :: error + 'm MeteorShower) \<noteq> Inl e"
    by (simp add: ctor_out_of_bounds_iff)
  then show "\<exists>s :: 'm MeteorShower. MeteorShower_ctor gd m = Inr s"
    by (cases "MeteorShower_ctor gd m :: error + 'm MeteorShower") auto
next
  fix s :: "'m MeteorShower"
  assume h: "MeteorShower_ctor gd m = Inr s \<and>
      (mandatory_missing m \<or> malformed_variable m \<or> invalid_confirmed_window s)"
  then have inv: "m_status s = INVALID"
    using ctor_valid_record[of gd m s] by blast
  show "m_status s = INVALID" by (rule inv)
  show "\<And>b. \<not> enabled b s" by (simp add: inv enabled_INVALID)
  show "\<And>ticks. updates ticks s = Inr s" by (simp add: inv updates_INVALID)
qed

text \<open>Example 3 of the specification: the record without \<^verbatim>\<open>radiantAlpha\<close>.\<close>

theorem construction_fails_closed_witness:
  "\<exists>s :: unit MeteorShower.
     MeteorShower_ctor (\<lambda>a. 0) (ex_shower\<lparr>sm_radiantAlpha := None\<rparr>) = Inr s \<and>
     m_status s = INVALID \<and> \<not> enabled False s \<and>
     updates [(ex_core, 1), (ex_core, 2)] s = Inr s"
  using construction_fails_closed
          [of "ex_shower\<lparr>sm_radiantAlpha := None\<rparr>" "\<lambda>a. 0", where ?'m = unit]
  by (auto simp: mandatory_missing_def simp del: updates.simps)

text \<open>
  The claim as stated fails for the generic window: a record whose only window has no
  peak date gives an object with an invalid date that is not INVALID, and is enabled.
\<close>

theorem generic_window_not_validated:
  "\<exists>s :: unit MeteorShower.
     MeteorShower_ctor (\<lambda>a. 0)
       (ex_shower\<lparr>sm_activity := Some [ex_window\<lparr>am_peak := []\<rparr>]\<rparr>) = Inr s \<and>
     \<not> isValid (peak (m_activities s ! 0)) \<and>
     m_status s = UNDEFINED \<and> enabled True s"
  by (simp add: MeteorShower_ctor_def ex_shower_def ex_window_def build_activities.simps
      parse_activity_def parse_variable_def parse_date_def QString_number_def genericYear_def
      QDate_fromString_def digit_val_def QDate_setDate_def isValid_ymd_def monthDays_def
      fix_years_def QList_at_def enabled_def)

subsection \<open>Gap filling\<close>

text \<open>
  Claim C10. In an object that is not INVALID, window 0 is the first record as parsed,
  and every window of index \<open>i \<ge> 1\<close> is the record \<open>i\<close> as parsed, where: the rate
  and the variable range are those of window 0 exactly when the record's own rate is 0
  (also when the catalog gives that 0 explicitly), and each of the three dates is the
  record's own date when that date is valid, and otherwise the date of window 0 moved by
  \<open>year - 1000\<close> years, each date on its own.
\<close>

theorem gap_filling_rule:
  assumes "(MeteorShower_ctor gd m :: error + 'm MeteorShower) = Inr s"
    and "m_status s \<noteq> INVALID"
    and "sm_activity m = Some ms"
    and "1 \<le> i" and "i < length ms"
  shows "\<exists>g p. parse_activity (ms ! 0) = Some g \<and> parse_activity (ms ! i) = Some p \<and>
           zhr p = am_zhr (ms ! i) \<and> year p = am_year (ms ! i) \<and>
           m_activities s ! 0 = g \<and>
           year (m_activities s ! i) = year p \<and>
           zhr (m_activities s ! i) = (if zhr p = 0 then zhr g else zhr p) \<and>
           variable (m_activities s ! i) = (if zhr p = 0 then variable g else variable p) \<and>
           start (m_activities s ! i) =
             (if isValid (start p) then start p else addYears (start g) (year p - 1000)) \<and>
           finish (m_activities s ! i) =
             (if isValid (finish p) then finish p else addYears (finish g) (year p - 1000)) \<and>
           peak (m_activities s ! i) =
             (if isValid (peak p) then peak p else addYears (peak g) (year p - 1000))"
proof -
  from ctor_valid[OF assms(1,2)] assms(3) obtain g ds where
    k: "map parse_activity ms = map Some (g # ds)"
       "m_activities s = g # map (fill_activity g) ds"
    by auto
  from k(1) have len: "length ms = Suc (length ds)"
    by (metis length_map length_Cons)
  obtain j where j: "i = Suc j" using assms(4) by (cases i) auto
  with len assms(5) have jl: "j < length ds" by simp
  from k(1) have nth: "\<And>n. n < length ms \<Longrightarrow> parse_activity (ms ! n) = Some ((g # ds) ! n)"
    by (metis nth_map length_map)
  have p0: "parse_activity (ms ! 0) = Some g"
    using nth[of 0] len by simp
  have pi: "parse_activity (ms ! i) = Some (ds ! j)"
    using nth[of i] assms(5) j by simp
  have a: "m_activities s ! i = fill_activity g (ds ! j)"
    using k(2) j jl by simp
  show ?thesis
    using p0 pi a k(2) parse_activity_Some(1,2)[OF pi]
    by (simp add: fill_activity_def Let_def genericYear_def)
qed

lemma ctor_ex_shower2:
  "\<exists>s :: unit MeteorShower.
     MeteorShower_ctor (\<lambda>a. 0) ex_shower2 = Inr s \<and> m_status s = UNDEFINED"
  by (simp add: ex_shower2_def ex_shower_def ctor_eval parse_ex_window parse_ex_confirmed)

theorem gap_filling_rule_witness:
  "\<exists>s :: unit MeteorShower.
     MeteorShower_ctor (\<lambda>a. 0) ex_shower2 = Inr s \<and> m_status s \<noteq> INVALID \<and>
     am_zhr ex_confirmed = 0 \<and>
     zhr (m_activities s ! 1) = 10 \<and>
     start (m_activities s ! 1) = QDate_ymd 2015 1 2 \<and>
     finish (m_activities s ! 1) = QDate_ymd 2015 1 20 \<and>
     peak (m_activities s ! 1) = QDate_ymd 2015 1 10"
proof -
  obtain s :: "unit MeteorShower" where
    c: "MeteorShower_ctor (\<lambda>a. 0) ex_shower2 = Inr s" and u: "m_status s = UNDEFINED"
    using ctor_ex_shower2 by blast
  have a: "sm_activity ex_shower2 = Some [ex_window, ex_confirmed]"
    by (simp add: ex_shower2_def)
  from u have n: "m_status s \<noteq> INVALID" by simp
  have r: "zhr (m_activities s ! 1) = 10 \<and>
     start (m_activities s ! 1) = QDate_ymd 2015 1 2 \<and>
     finish (m_activities s ! 1) = QDate_ymd 2015 1 20 \<and>
     peak (m_activities s ! 1) = QDate_ymd 2015 1 10"
    using gap_filling_rule[OF c n a, of 1]
    by (simp add: parse_ex_window parse_ex_confirmed fixedDate_def QDate_setDate_def
        isValid_ymd_def monthDays_def daysInMonth_def)
  show ?thesis
    using c n r by (simp add: ex_confirmed_def)
qed

lemmas date_eval =
  date_ge_def date_le_def date_gt_def julianDayFromDate_def nullJd_def in_window_def

lemma ctor_ex_shower2_state:
  "MeteorShower_ctor (\<lambda>a. 0) ex_shower2 = Inr ex_state"
  by (simp add: ex_shower2_def ex_shower_def ctor_eval parse_ex_window parse_ex_confirmed
      ex_state_def ex_activities_def ex_generic_activity_def ex_confirmed_activity_def MeteorShower_init_def build_colors_def)

subsection \<open>The activity of a date: confirmed windows first\<close>

lemma confirmed_loop_find:
  "confirmed_loop as date found =
     (case find (in_window date) as of
        Some a \<Rightarrow> (a, True)
      | None \<Rightarrow> (Activity_empty, found))"
  by (induction as) (auto simp: in_window_def)

lemma hasGenericShower_total:
  "activities \<noteq> [] \<Longrightarrow> \<exists>a found. hasGenericShower activities date = Inr (a, found)"
  by (cases activities)
     (auto simp: hasGenericShower_def QList_at_def Let_def split: prod.splits)

lemma find_drop1_Some:
  "find P (drop 1 xs) = Some a \<longleftrightarrow>
     (\<exists>i. 1 \<le> i \<and> i < length xs \<and> P (xs ! i) \<and>
          (\<forall>j. 1 \<le> j \<and> j < i \<longrightarrow> \<not> P (xs ! j)) \<and> a = xs ! i)"
proof (cases xs)
  case Nil
  then show ?thesis by simp
next
  case (Cons x ys)
  show ?thesis
  proof
    assume "find P (drop 1 xs) = Some a"
    then obtain k where k: "k < length ys" "P (ys ! k)" "a = ys ! k" "\<forall>j<k. \<not> P (ys ! j)"
      using Cons by (auto simp: find_Some_iff)
    have "\<forall>j. 1 \<le> j \<and> j < Suc k \<longrightarrow> \<not> P (xs ! j)"
    proof (intro allI impI)
      fix j assume "1 \<le> j \<and> j < Suc k"
      then obtain j' where "j = Suc j'" "j' < k" by (cases j) auto
      with k(4) Cons show "\<not> P (xs ! j)" by simp
    qed
    with k Cons show "\<exists>i. 1 \<le> i \<and> i < length xs \<and> P (xs ! i) \<and>
        (\<forall>j. 1 \<le> j \<and> j < i \<longrightarrow> \<not> P (xs ! j)) \<and> a = xs ! i"
      by (intro exI[of _ "Suc k"]) simp
  next
    assume "\<exists>i. 1 \<le> i \<and> i < length xs \<and> P (xs ! i) \<and>
        (\<forall>j. 1 \<le> j \<and> j < i \<longrightarrow> \<not> P (xs ! j)) \<and> a = xs ! i"
    then obtain i where i: "1 \<le> i" "i < length xs" "P (xs ! i)"
      "\<forall>j. 1 \<le> j \<and> j < i \<longrightarrow> \<not> P (xs ! j)" "a = xs ! i" by blast
    then obtain k where ik: "i = Suc k" by (cases i) auto
    have "\<forall>j<k. \<not> P (ys ! j)"
    proof (intro allI impI)
      fix j assume "j < k"
      with i(4) ik have "\<not> P (xs ! Suc j)" by simp
      with Cons show "\<not> P (ys ! j)" by simp
    qed
    with i ik Cons show "find P (drop 1 xs) = Some a"
      by (auto simp: find_Some_iff intro!: exI[of _ k])
  qed
qed

lemma find_drop1_None:
  "find P (drop 1 xs) = None \<longleftrightarrow> \<not> (\<exists>i. 1 \<le> i \<and> i < length xs \<and> P (xs ! i))"
proof (cases xs)
  case Nil
  then show ?thesis by simp
next
  case (Cons x ys)
  have "(\<exists>i. 1 \<le> i \<and> i < length xs \<and> P (xs ! i)) \<longleftrightarrow> (\<exists>k < length ys. P (ys ! k))"
  proof
    assume "\<exists>i. 1 \<le> i \<and> i < length xs \<and> P (xs ! i)"
    then obtain i where i: "1 \<le> i" "i < length xs" "P (xs ! i)" by blast
    then obtain k where "i = Suc k" by (cases i) auto
    with i Cons show "\<exists>k < length ys. P (ys ! k)" by auto
  next
    assume "\<exists>k < length ys. P (ys ! k)"
    then obtain k where "k < length ys" "P (ys ! k)" by blast
    with Cons show "\<exists>i. 1 \<le> i \<and> i < length xs \<and> P (xs ! i)"
      by (intro exI[of _ "Suc k"]) simp
  qed
  with Cons show ?thesis
    by (auto simp: find_None_iff in_set_conv_nth)
qed

text \<open>
  Claim C2. For an object with a non-empty window list and any date, the resolution of
  lines 229--244 returns. If some window of index \<open>\<ge> 1\<close> contains the date (start and
  finish included), the status is ACTIVE\_CONFIRMED and the activity is the window of
  the least such index; the generic window plays no part. Only when no window of index
  \<open>\<ge> 1\<close> contains the date is the generic window consulted: the activity is the result
  of \<^verbatim>\<open>hasGenericShower\<close>, and the status ACTIVE\_GENERIC or INACTIVE as it reports. The
  status is one value, so a confirmed and a generic match are never reported together.
\<close>

theorem confirmed_window_takes_precedence:
  assumes "m_activities s \<noteq> []"
  shows "\<exists>s'. resolve_activity date s = Inr s' \<and>
     (if \<exists>i. 1 \<le> i \<and> i < length (m_activities s) \<and> in_window date (m_activities s ! i)
      then m_status s' = ACTIVE_CONFIRMED \<and>
           (\<exists>i. 1 \<le> i \<and> i < length (m_activities s) \<and>
                in_window date (m_activities s ! i) \<and>
                (\<forall>j. 1 \<le> j \<and> j < i \<longrightarrow> \<not> in_window date (m_activities s ! j)) \<and>
                m_activity s' = m_activities s ! i)
      else (\<exists>a found. hasGenericShower (m_activities s) date = Inr (a, found) \<and>
              m_activity s' = a \<and>
              m_status s' = (if found then ACTIVE_GENERIC else INACTIVE)))"
proof (cases "find (in_window date) (drop 1 (m_activities s))")
  case None
  then have no: "\<not> (\<exists>i. 1 \<le> i \<and> i < length (m_activities s) \<and>
      in_window date (m_activities s ! i))"
    using find_drop1_None[of "in_window date" "m_activities s"] by blast
  from assms obtain a found where g: "hasGenericShower (m_activities s) date = Inr (a, found)"
    using hasGenericShower_total by blast
  show ?thesis
    using None no g
    by (auto simp: resolve_activity_def hasConfirmedShower_def confirmed_loop_find Let_def)
next
  case (Some a)
  then have ex: "\<exists>i. 1 \<le> i \<and> i < length (m_activities s) \<and>
      in_window date (m_activities s ! i) \<and>
      (\<forall>j. 1 \<le> j \<and> j < i \<longrightarrow> \<not> in_window date (m_activities s ! j)) \<and>
      a = m_activities s ! i"
    using find_drop1_Some[of "in_window date" "m_activities s" a] by blast
  then have yes: "\<exists>i. 1 \<le> i \<and> i < length (m_activities s) \<and>
      in_window date (m_activities s ! i)"
    by blast
  show ?thesis
    using Some ex yes
    by (auto simp: resolve_activity_def hasConfirmedShower_def confirmed_loop_find Let_def)
qed

lemma ex_generic_matches:
  "\<exists>a. hasGenericShower ex_activities (QDate_ymd 2015 1 5) = Inr (a, True)"
  by (simp add: ex_activities_def ex_generic_activity_def ex_confirmed_activity_def hasGenericShower_def generic_alignment_def QList_at_def
      Let_def QDate_setDate_def isValid_ymd_def monthDays_def date_eval)

text \<open>
  On January 5, 2015 both the confirmed window of 2015 and the generic window contain the
  date; the confirmed window is reported.
\<close>

theorem confirmed_window_takes_precedence_witness:
  "\<exists>s'. resolve_activity (QDate_ymd 2015 1 5) ex_state = Inr s' \<and>
      m_status s' = ACTIVE_CONFIRMED \<and> m_activity s' = ex_confirmed_activity \<and>
      (\<exists>a. hasGenericShower ex_activities (QDate_ymd 2015 1 5) = Inr (a, True))"
proof -
  have ne: "m_activities ex_state \<noteq> []"
    by (simp add: ex_state_def ex_activities_def ex_generic_activity_def ex_confirmed_activity_def)
  have w: "in_window (QDate_ymd 2015 1 5) (m_activities ex_state ! 1)"
    by (simp add: ex_state_def ex_activities_def ex_generic_activity_def ex_confirmed_activity_def date_eval)
  have len: "length (m_activities ex_state) = 2"
    by (simp add: ex_state_def ex_activities_def ex_generic_activity_def ex_confirmed_activity_def)
  have c: "\<exists>i. 1 \<le> i \<and> i < length (m_activities ex_state) \<and>
             in_window (QDate_ymd 2015 1 5) (m_activities ex_state ! i)"
    using w len by (intro exI[of _ 1]) simp
  from confirmed_window_takes_precedence[OF ne, of "QDate_ymd 2015 1 5"] c
  obtain s' i where r: "resolve_activity (QDate_ymd 2015 1 5) ex_state = Inr s'"
    "m_status s' = ACTIVE_CONFIRMED" "1 \<le> i" "i < length (m_activities ex_state)"
    "m_activity s' = m_activities ex_state ! i"
    by (auto split: if_splits)
  from r(3,4) len have "i = 1" by simp
  with r have "m_activity s' = ex_confirmed_activity"
    by (simp add: ex_state_def ex_activities_def)
  with r(1,2) ex_generic_matches show ?thesis by blast
qed

subsection \<open>Every tick completes\<close>

lemma variable_wf_empty [simp]: "variable_wf Activity_empty"
  by (simp add: variable_wf_def Activity_empty_def)

lemma variable_wf_fill:
  "variable_wf g \<Longrightarrow> variable_wf a \<Longrightarrow> variable_wf (fill_activity g a)"
  by (simp add: variable_wf_def fill_activity_def Let_def)

lemma variable_wf_parse: "parse_activity am = Some d \<Longrightarrow> variable_wf d"
  using parse_activity_Some(3) by (simp add: variable_wf_def)

lemma ctor_wf:
  assumes "(MeteorShower_ctor gd m :: error + 'm MeteorShower) = Inr s"
    and "m_status s \<noteq> INVALID"
  shows "wf_shower s"
proof -
  from ctor_valid[OF assms] obtain ms g ds where
    k: "map parse_activity ms = map Some (g # ds)"
       "m_activities s = g # map (fill_activity g) ds"
    by blast
  have "\<forall>d \<in> set (g # ds). variable_wf d"
  proof
    fix d assume "d \<in> set (g # ds)"
    then have "Some d \<in> set (map parse_activity ms)"
      using k(1) by (metis imageI set_map)
    then obtain am where "parse_activity am = Some d" by auto
    then show "variable_wf d" by (rule variable_wf_parse)
  qed
  then show ?thesis
    using k(2) by (auto simp: wf_shower_def list_all_iff variable_wf_fill)
qed

lemma confirmed_loop_wf:
  "list_all variable_wf as \<Longrightarrow> variable_wf (fst (confirmed_loop as date found))"
  by (induction as) auto

lemma generic_alignment_fields [simp]:
  "zhr (fst (generic_alignment g date)) = zhr g"
  "variable (fst (generic_alignment g date)) = variable g"
  "peak (fst (generic_alignment g date)) = peak g"
  by (simp_all add: generic_alignment_def Let_def)

lemma hasGenericShower_wf:
  assumes "list_all variable_wf acts" "hasGenericShower acts date = Inr (a, found)"
  shows "variable_wf a"
proof (cases acts)
  case Nil
  with assms show ?thesis by (simp add: hasGenericShower_def QList_at_def)
next
  case (Cons g rest)
  obtain g' f where ga: "generic_alignment g date = (g', f)"
    by (cases "generic_alignment g date")
  have "zhr g' = zhr g" "variable g' = variable g"
    using generic_alignment_fields(1,2)[of g date] ga by simp_all
  with assms Cons ga show ?thesis
    by (auto simp: hasGenericShower_def QList_at_def Let_def variable_wf_def Activity_empty_def
        split: if_splits)
qed

lemma resolve_activity_fields:
  assumes "resolve_activity date s = Inr s'"
  shows "s' = s\<lparr>m_status := m_status s', m_activity := m_activity s'\<rparr>"
    and "m_status s' \<noteq> INVALID" and "m_status s' \<noteq> UNDEFINED"
  using assms
  by (auto simp: resolve_activity_def Let_def split: prod.splits sum.splits if_splits)

lemma resolve_activity_cong:
  assumes "m_activities s2 = m_activities s1" "resolve_activity date s1 = Inr s1'"
  shows "resolve_activity date s2 =
           Inr (s2\<lparr>m_status := m_status s1', m_activity := m_activity s1'\<rparr>)"
  using assms
  by (auto simp: resolve_activity_def Let_def split: prod.splits sum.splits if_splits)

lemma resolve_activity_wf:
  assumes "wf_shower s"
  shows "\<exists>s'. resolve_activity date s = Inr s' \<and> wf_shower s' \<and>
           variable_wf (m_activity s')"
proof -
  have ne: "m_activities s \<noteq> []" and la: "list_all variable_wf (m_activities s)"
    using assms by (simp_all add: wf_shower_def)
  obtain a found where c: "hasConfirmedShower (m_activities s) date False = (a, found)"
    by (cases "hasConfirmedShower (m_activities s) date False")
  have "list_all variable_wf (drop 1 (m_activities s))"
    using la by (auto simp: list_all_iff dest: in_set_dropD)
  then have wa: "variable_wf a"
    using confirmed_loop_wf[of "drop 1 (m_activities s)" date False] c
    by (simp add: hasConfirmedShower_def)
  obtain b fb where g: "hasGenericShower (m_activities s) date = Inr (b, fb)"
    using hasGenericShower_total[OF ne] by blast
  have wb: "variable_wf b"
    using hasGenericShower_wf[OF la g] .
  show ?thesis
    using c g wa wb ne la
    by (auto simp: resolve_activity_def Let_def wf_shower_def)
qed

lemma calculateZHR_total:
  "variable_wf a \<Longrightarrow> \<exists>z. calculateZHR nan a t = Inr z"
  by (auto simp: calculateZHR_def Let_def variable_wf_def QList_at_def split: option.splits)

lemma fix_radiant_fields [simp]:
  "m_activities (fix_radiant t s) = m_activities s"
  "m_activity (fix_radiant t s) = m_activity s"
  "m_status (fix_radiant t s) = m_status s"
  "m_activeMeteors (fix_radiant t s) = m_activeMeteors s"
  by (simp_all add: fix_radiant_def Let_def)

lemma spawn_step_fields [simp]:
  "m_activities (spawn_step core rate s i) = m_activities s"
  "m_activity (spawn_step core rate s i) = m_activity s"
  "m_status (spawn_step core rate s i) = m_status s"
  "m_radiantAlpha (spawn_step core rate s i) = m_radiantAlpha s"
  "m_radiantDelta (spawn_step core rate s i) = m_radiantDelta s"
  by (simp_all add: spawn_step_def Let_def)

lemma spawn_fold_fields:
  "m_activities (foldl (spawn_step core rate) s is) = m_activities s \<and>
   m_activity (foldl (spawn_step core rate) s is) = m_activity s \<and>
   m_status (foldl (spawn_step core rate) s is) = m_status s \<and>
   m_radiantAlpha (foldl (spawn_step core rate) s is) = m_radiantAlpha s \<and>
   m_radiantDelta (foldl (spawn_step core rate) s is) = m_radiantDelta s"
  by (induction "is" arbitrary: s) simp_all

lemma spawn_meteors_fields [simp]:
  "m_activities (spawn_meteors core z dt s) = m_activities s"
  "m_activity (spawn_meteors core z dt s) = m_activity s"
  "m_status (spawn_meteors core z dt s) = m_status s"
  "m_radiantAlpha (spawn_meteors core z dt s) = m_radiantAlpha s"
  "m_radiantDelta (spawn_meteors core z dt s) = m_radiantDelta s"
  by (simp_all add: spawn_meteors_def Let_def spawn_fold_fields)

lemma age_meteors_fields [simp]:
  "m_activities (age_meteors core dt s) = m_activities s"
  "m_activity (age_meteors core dt s) = m_activity s"
  "m_status (age_meteors core dt s) = m_status s"
  "m_radiantAlpha (age_meteors core dt s) = m_radiantAlpha s"
  "m_radiantDelta (age_meteors core dt s) = m_radiantDelta s"
  "m_activeMeteors (age_meteors core dt s) = update_meteors core dt (m_activeMeteors s)"
  by (simp_all add: age_meteors_def)

lemma update_unfold:
  assumes "m_status s \<noteq> INVALID"
    and "resolve_activity (QDate_fromJulianDay (double_to_qint64 (getJD core))) s = Inr r"
    and "calculateZHR (qRound_NaN core) (m_activity r) (getJD core) = Inr z"
  shows "update core dt s =
           Inr (if \<not> enabled (getActiveRadiantOnly core) r then r
                else if \<not> getRealTimeSpeed core
                     then age_meteors core dt (fix_radiant (getJD core) r)
                else if z < 1 then age_meteors core dt (fix_radiant (getJD core) r)
                else spawn_meteors core z dt (age_meteors core dt (fix_radiant (getJD core) r)))"
  using assms by (simp add: update_def Let_def)

lemma update_wf:
  assumes "wf_shower s"
  shows "\<exists>s'. update core dt s = Inr s' \<and> wf_shower s' \<and>
           (m_status s \<noteq> INVALID \<longrightarrow> m_status s' \<noteq> INVALID)"
proof (cases "m_status s = INVALID")
  case True
  with assms show ?thesis by (simp add: update_def)
next
  case False
  let ?date = "QDate_fromJulianDay (double_to_qint64 (getJD core))"
  from resolve_activity_wf[OF assms, of ?date] obtain r where
    r: "resolve_activity ?date s = Inr r" "wf_shower r" "variable_wf (m_activity r)"
    by blast
  have rs: "m_status r \<noteq> INVALID"
    using resolve_activity_fields(2)[OF r(1)] .
  from r(3) obtain z where z: "calculateZHR (qRound_NaN core) (m_activity r) (getJD core) = Inr z"
    using calculateZHR_total by blast
  note u = update_unfold[OF False r(1) z, of dt]
  have w1: "wf_shower (age_meteors core dt (fix_radiant (getJD core) r))"
    using r(2) by (simp add: wf_shower_def)
  have w2: "wf_shower (spawn_meteors core z dt (age_meteors core dt (fix_radiant (getJD core) r)))"
    using r(2) by (simp add: wf_shower_def)
  show ?thesis
    unfolding u using r(2) rs w1 w2 by simp
qed

lemma updates_wf:
  assumes "wf_shower s" "m_status s \<noteq> INVALID"
  shows "\<exists>s'. updates ticks s = Inr s' \<and> wf_shower s' \<and> m_status s' \<noteq> INVALID"
  using assms
proof (induction ticks arbitrary: s)
  case Nil
  then show ?case by simp
next
  case (Cons t ticks)
  obtain core dt where t: "t = (core, dt)" by (cases t)
  from update_wf[OF Cons.prems(1), of core dt] Cons.prems(2) obtain s1 where
    s1: "update core dt s = Inr s1" "wf_shower s1" "m_status s1 \<noteq> INVALID" by blast
  from Cons.IH[OF s1(2,3)] s1(1) t show ?case by simp
qed


text \<open>
  Claim C7. An object that the constructor has built with a status other than INVALID
  goes through every sequence of ticks, whatever the date, the elapsed time, the settings
  and the random draws of each: every call of \<^verbatim>\<open>update\<close> returns, none reads a list
  out of bounds, and the status is never INVALID afterwards. This covers the ticks on
  which no window matches and the shower stays enabled.
\<close>

theorem update_completes:
  assumes "(MeteorShower_ctor gd m :: error + 'm MeteorShower) = Inr s"
    and "m_status s \<noteq> INVALID"
  shows "\<exists>s'. updates ticks s = Inr s' \<and> m_status s' \<noteq> INVALID"
  using updates_wf[OF ctor_wf[OF assms] assms(2), of ticks] by blast

text \<open>
  July 1, 2015 is in no window of the example object; with the ``active radiants only''
  setting off, the shower is INACTIVE and enabled on that tick.
\<close>

lemma getDate_july: "getDateFromJulianDay 2457205 = (2015, 7, 1)"
  by code_simp

lemma fromJulianDay_july:
  "QDate_fromJulianDay (double_to_qint64 (getJD ex_core_july)) = QDate_ymd 2015 7 1"
  by (simp add: ex_core_july_def double_to_qint64_def QDate_fromJulianDay_def minJd_def
      maxJd_def getDate_july)

lemma ex_state_inactive:
  "resolve_activity (QDate_ymd 2015 7 1) ex_state =
     Inr (ex_state\<lparr>m_status := INACTIVE, m_activity := Activity_empty\<rparr>)"
  by code_simp

lemma calculateZHR_empty: "t \<noteq> real_of_int nullJd \<Longrightarrow> calculateZHR nan Activity_empty t = Inr 0"
  by (simp add: calculateZHR_def Activity_empty_def gauss_factor_def qRound_def)

lemma ex_tick_inactive:
  "(case update ex_core_july 1 ex_state of
      Inl e \<Rightarrow> False
    | Inr s1 \<Rightarrow> m_status s1 = INACTIVE \<and> enabled False s1)"
proof -
  have n: "m_status ex_state \<noteq> INVALID"
    by (simp add: ex_state_def)
  have r: "resolve_activity (QDate_fromJulianDay (double_to_qint64 (getJD ex_core_july)))
             ex_state = Inr (ex_state\<lparr>m_status := INACTIVE, m_activity := Activity_empty\<rparr>)"
    by (simp only: fromJulianDay_july ex_state_inactive)
  have z: "calculateZHR (qRound_NaN ex_core_july)
             (m_activity (ex_state\<lparr>m_status := INACTIVE, m_activity := Activity_empty\<rparr>))
             (getJD ex_core_july) = Inr 0"
    by (simp add: calculateZHR_empty ex_core_july_def nullJd_def)
  show ?thesis
    by (simp add: update_unfold[OF n r z] enabled_def)
qed

theorem update_completes_witness:
  "MeteorShower_ctor (\<lambda>a. 0) ex_shower2 = Inr ex_state \<and> m_status ex_state \<noteq> INVALID \<and>
   (case update ex_core_july 1 ex_state of
      Inl e \<Rightarrow> False
    | Inr s1 \<Rightarrow> m_status s1 = INACTIVE \<and> enabled False s1) \<and>
   (\<exists>s'. updates [(ex_core_july, 1), (ex_core, 1)] ex_state = Inr s' \<and>
         m_status s' \<noteq> INVALID)"
proof -
  have n: "m_status ex_state \<noteq> INVALID"
    by (simp add: ex_state_def)
  from update_completes[OF ctor_ex_shower2_state n, of "[(ex_core_july, 1), (ex_core, 1)]"]
  show ?thesis
    using ctor_ex_shower2_state n ex_tick_inactive by blast
qed

subsection \<open>Repeated calls at a fixed instant\<close>

lemma fix_radiant_idem: "fix_radiant t (fix_radiant t s) = fix_radiant t s"
  by (simp add: fix_radiant_def Let_def)

lemma fix_radiant_age: "fix_radiant t (age_meteors c dt s) = age_meteors c dt (fix_radiant t s)"
  by (simp add: fix_radiant_def age_meteors_def Let_def)

lemma qRound_0: "qRound 0 = 0"
  by (simp add: qRound_def)

lemma prob_nonneg: "\<not> real (qrand core i) / real RAND_MAX < 0"
  by (simp add: not_less)

lemma spawn_step_rate0: "spawn_step core 0 s i = s"
  by (simp add: spawn_step_def Let_def prob_nonneg)

lemma spawn_meteors_dt0: "spawn_meteors core z 0 s = s"
  by (simp add: spawn_meteors_def meteorsPerFrame_def maxThisFrame_def qRound_0 Let_def
      spawn_step_rate0)

lemma enabled_cong: "m_status s' = m_status s \<Longrightarrow> enabled b s' = enabled b s"
  by (simp add: enabled_def)

lemma update_dt0:
  assumes "wf_shower s" "m_status s \<noteq> INVALID"
    and "resolve_activity (QDate_fromJulianDay (double_to_qint64 (getJD core))) s = Inr r"
  shows "update core 0 s =
           Inr (if \<not> enabled (getActiveRadiantOnly core) r then r
                else age_meteors core 0 (fix_radiant (getJD core) r))"
proof -
  from resolve_activity_wf[OF assms(1), of "QDate_fromJulianDay (double_to_qint64 (getJD core))"]
    assms(3) have "variable_wf (m_activity r)" by simp
  then obtain z where z: "calculateZHR (qRound_NaN core) (m_activity r) (getJD core) = Inr z"
    using calculateZHR_total by blast
  show ?thesis
    by (simp add: update_unfold[OF assms(2,3) z] spawn_meteors_dt0)
qed

lemma resolve_activity_self:
  assumes "resolve_activity date s = Inr r" "m_activities s1 = m_activities s"
    "m_status s1 = m_status r" "m_activity s1 = m_activity r"
  shows "resolve_activity date s1 = Inr s1"
proof -
  have "resolve_activity date s1 =
          Inr (s1\<lparr>m_status := m_status r, m_activity := m_activity r\<rparr>)"
    using resolve_activity_cong[OF assms(2) assms(1)] .
  also have "s1\<lparr>m_status := m_status r, m_activity := m_activity r\<rparr> = s1"
    using assms(3,4) by simp
  finally show ?thesis .
qed

lemma settled_after_update:
  assumes "wf_shower s" "m_status s \<noteq> INVALID" "update core 0 s = Inr s1"
  shows "settled core s1"
    and "m_activeMeteors s1 =
           (if enabled (getActiveRadiantOnly core) s1
            then update_meteors core 0 (m_activeMeteors s) else m_activeMeteors s)"
proof -
  let ?date = "QDate_fromJulianDay (double_to_qint64 (getJD core))"
  from resolve_activity_wf[OF assms(1), of ?date] obtain r where
    r: "resolve_activity ?date s = Inr r" "wf_shower r" by blast
  note f = resolve_activity_fields[OF r(1)]
  have ra: "m_activities r = m_activities s" "m_activeMeteors r = m_activeMeteors s"
    by (subst f(1), simp)+
  have s1: "s1 = (if \<not> enabled (getActiveRadiantOnly core) r then r
                 else age_meteors core 0 (fix_radiant (getJD core) r))"
    using update_dt0[OF assms(1,2) r(1)] assms(3) by simp
  have st: "m_status s1 = m_status r" "m_activity s1 = m_activity r"
    "m_activities s1 = m_activities r"
    by (simp_all add: s1)
  have en: "enabled (getActiveRadiantOnly core) s1 = enabled (getActiveRadiantOnly core) r"
    using st(1) by (rule enabled_cong)
  have w: "wf_shower s1"
    using r(2) st by (simp add: wf_shower_def)
  have rs: "resolve_activity ?date s1 = Inr s1"
    using resolve_activity_self[OF r(1) _ st(1,2)] st(3) ra(1) by simp
  have fx: "enabled (getActiveRadiantOnly core) s1 \<longrightarrow> fix_radiant (getJD core) s1 = s1"
    using en by (simp add: s1 fix_radiant_age fix_radiant_idem)
  show "settled core s1"
    using w rs fx f(2) st(1) by (simp add: settled_def)
  show "m_activeMeteors s1 =
           (if enabled (getActiveRadiantOnly core) s1
            then update_meteors core 0 (m_activeMeteors s) else m_activeMeteors s)"
    unfolding en by (simp add: s1 ra(2))
qed

lemma settled_step:
  assumes "settled core s1" "same_instant core (c, dt)"
  shows "update c dt s1 =
           Inr (if enabled (getActiveRadiantOnly core) s1 then age_meteors c 0 s1 else s1)"
    and "settled core (if enabled (getActiveRadiantOnly core) s1 then age_meteors c 0 s1 else s1)"
proof -
  let ?date = "QDate_fromJulianDay (double_to_qint64 (getJD core))"
  have k: "wf_shower s1" "m_status s1 \<noteq> INVALID" "resolve_activity ?date s1 = Inr s1"
    "enabled (getActiveRadiantOnly core) s1 \<longrightarrow> fix_radiant (getJD core) s1 = s1"
    using assms(1) by (simp_all add: settled_def)
  have e: "getJD c = getJD core" "getActiveRadiantOnly c = getActiveRadiantOnly core" "dt = 0"
    using assms(2) by (simp_all add: same_instant_def)
  have r: "resolve_activity (QDate_fromJulianDay (double_to_qint64 (getJD c))) s1 = Inr s1"
    using k(3) e(1) by simp
  show u: "update c dt s1 =
           Inr (if enabled (getActiveRadiantOnly core) s1 then age_meteors c 0 s1 else s1)"
    using update_dt0[OF k(1,2) r] k(4) e by simp
  show "settled core (if enabled (getActiveRadiantOnly core) s1 then age_meteors c 0 s1 else s1)"
  proof (cases "enabled (getActiveRadiantOnly core) s1")
    case False
    with assms(1) show ?thesis by simp
  next
    case True
    have w: "wf_shower (age_meteors c 0 s1)"
      using k(1) by (simp add: wf_shower_def)
    have rs: "resolve_activity ?date (age_meteors c 0 s1) = Inr (age_meteors c 0 s1)"
      using resolve_activity_self[OF k(3), of "age_meteors c 0 s1"] by simp
    have fx: "fix_radiant (getJD core) (age_meteors c 0 s1) = age_meteors c 0 s1"
      using k(4) True by (simp add: fix_radiant_age)
    show ?thesis
      using True w rs fx k(2) by (simp add: settled_def)
  qed
qed

lemma settled_updates:
  assumes "settled core s1" "list_all (same_instant core) ts"
  shows "\<exists>s2. updates ts s1 = Inr s2 \<and> m_status s2 = m_status s1 \<and>
           m_activity s2 = m_activity s1 \<and> m_radiantAlpha s2 = m_radiantAlpha s1 \<and>
           m_radiantDelta s2 = m_radiantDelta s1 \<and>
           m_activeMeteors s2 =
             (if enabled (getActiveRadiantOnly core) s1 then age_all ts (m_activeMeteors s1)
              else m_activeMeteors s1)"
  using assms
proof (induction ts arbitrary: s1)
  case Nil
  then show ?case by simp
next
  case (Cons t ts)
  obtain c dt where t: "t = (c, dt)" by (cases t)
  from Cons.prems(2) t have si: "same_instant core (c, dt)" and rest: "list_all (same_instant core) ts"
    by simp_all
  have dt0: "dt = 0" using si by (simp add: same_instant_def)
  let ?s = "if enabled (getActiveRadiantOnly core) s1 then age_meteors c 0 s1 else s1"
  note st = settled_step[OF Cons.prems(1) si]
  from Cons.IH[OF st(2) rest] obtain s2 where
    s2: "updates ts ?s = Inr s2" "m_status s2 = m_status ?s" "m_activity s2 = m_activity ?s"
      "m_radiantAlpha s2 = m_radiantAlpha ?s" "m_radiantDelta s2 = m_radiantDelta ?s"
      "m_activeMeteors s2 =
         (if enabled (getActiveRadiantOnly core) ?s then age_all ts (m_activeMeteors ?s)
          else m_activeMeteors ?s)"
    by blast
  have en: "enabled (getActiveRadiantOnly core) ?s = enabled (getActiveRadiantOnly core) s1"
    by (rule enabled_cong) simp
  have u: "updates (t # ts) s1 = Inr s2"
    using st(1) s2(1) t by simp
  show ?case
  proof (cases "enabled (getActiveRadiantOnly core) s1")
    case True
    with s2 u t dt0 en show ?thesis by simp
  next
    case False
    with s2 u t en show ?thesis by simp
  qed
qed

text \<open>
  Claim C8. Take an object that the constructor has built with a status other than
  INVALID, after any sequence of ticks. A call of \<^verbatim>\<open>update\<close> with no elapsed time
  returns, and adds no meteor: the meteors are the former ones, updated when the shower
  is enabled. After any number of further calls at the same instant (the same current
  time and ``active radiants only'' setting, no elapsed time, any random draws), the
  status, the activity and the radiant position are those after the first call, and
  again no meteor has been added.
\<close>

theorem update_idempotent_at_fixed_instant:
  assumes "(MeteorShower_ctor gd m :: error + 'm MeteorShower) = Inr s0"
    and "m_status s0 \<noteq> INVALID"
    and "updates ticks s0 = Inr s"
    and "list_all (same_instant core) ts"
  shows "\<exists>s1 s2. update core 0 s = Inr s1 \<and> updates ts s1 = Inr s2 \<and>
           m_status s2 = m_status s1 \<and> m_activity s2 = m_activity s1 \<and>
           m_radiantAlpha s2 = m_radiantAlpha s1 \<and> m_radiantDelta s2 = m_radiantDelta s1 \<and>
           m_activeMeteors s1 =
             (if enabled (getActiveRadiantOnly core) s1
              then update_meteors core 0 (m_activeMeteors s) else m_activeMeteors s) \<and>
           m_activeMeteors s2 =
             (if enabled (getActiveRadiantOnly core) s1 then age_all ts (m_activeMeteors s1)
              else m_activeMeteors s1)"
proof -
  from updates_wf[OF ctor_wf[OF assms(1,2)] assms(2), of ticks] assms(3)
  have w: "wf_shower s" "m_status s \<noteq> INVALID" by simp_all
  from update_wf[OF w(1), of core 0] obtain s1 where s1: "update core 0 s = Inr s1"
    by blast
  note a = settled_after_update[OF w s1]
  from settled_updates[OF a(1) assms(4)] obtain s2 where
    "updates ts s1 = Inr s2 \<and> m_status s2 = m_status s1 \<and>
           m_activity s2 = m_activity s1 \<and> m_radiantAlpha s2 = m_radiantAlpha s1 \<and>
           m_radiantDelta s2 = m_radiantDelta s1 \<and>
           m_activeMeteors s2 =
             (if enabled (getActiveRadiantOnly core) s1 then age_all ts (m_activeMeteors s1)
              else m_activeMeteors s1)"
    by blast
  with s1 a(2) show ?thesis by blast
qed


theorem update_idempotent_at_fixed_instant_witness:
  "MeteorShower_ctor (\<lambda>a. 0) ex_shower2 = Inr ex_state \<and> m_status ex_state \<noteq> INVALID \<and>
   updates [] ex_state = Inr ex_state \<and>
   list_all (same_instant ex_core) [(ex_core\<lparr>qrand := \<lambda>i. 7\<rparr>, 0), (ex_core, 0)] \<and>
   (\<exists>s1 s2. update ex_core 0 ex_state = Inr s1 \<and>
      updates [(ex_core\<lparr>qrand := \<lambda>i. 7\<rparr>, 0), (ex_core, 0)] s1 = Inr s2 \<and>
      m_status s2 = m_status s1 \<and> m_activity s2 = m_activity s1 \<and>
      m_radiantAlpha s2 = m_radiantAlpha s1 \<and> m_radiantDelta s2 = m_radiantDelta s1)"
proof -
  have n: "m_status ex_state \<noteq> INVALID"
    by (simp add: ex_state_def)
  have u: "updates [] ex_state = Inr ex_state"
    by simp
  have l: "list_all (same_instant ex_core) [(ex_core\<lparr>qrand := \<lambda>i. 7\<rparr>, 0), (ex_core, 0)]"
    by (simp add: same_instant_def)
  from update_idempotent_at_fixed_instant[OF ctor_ex_shower2_state n u l]
  show ?thesis
    using ctor_ex_shower2_state n u l by blast
qed

subsection \<open>The meteors of a tick\<close>

lemma spawned_cong:
  "m_speed s' = m_speed s \<Longrightarrow> m_radiantAlpha s' = m_radiantAlpha s \<Longrightarrow>
   m_radiantDelta s' = m_radiantDelta s \<Longrightarrow> m_pidx s' = m_pidx s \<Longrightarrow>
   m_colors s' = m_colors s \<Longrightarrow> spawned core rate s' n = spawned core rate s n"
  by (simp add: spawned_def)

lemma spawned_Suc:
  "spawned core rate s (Suc n) =
     spawned core rate s n @
       (if real (qrand core n) / real RAND_MAX < rate \<and>
           isAlive core (new_MeteorObj core n (m_speed s) (m_radiantAlpha s) (m_radiantDelta s)
                           (m_pidx s) (m_colors s))
        then [new_MeteorObj core n (m_speed s) (m_radiantAlpha s) (m_radiantDelta s)
                (m_pidx s) (m_colors s)]
        else [])"
  by (simp add: spawned_def)

lemma spawned_length: "length (spawned core rate s n) \<le> n"
proof -
  have "length (spawned core rate s n) \<le>
          length (filter (\<lambda>i. real (qrand core i) / real RAND_MAX < rate) [0 ..< n])"
    unfolding spawned_def
    by (metis length_filter_le length_map)
  also have "\<dots> \<le> length [0 ..< n]"
    by (rule length_filter_le)
  finally show ?thesis by simp
qed

lemma spawn_fold:
  "foldl (spawn_step core rate) s [0 ..< n] =
     s\<lparr>m_activeMeteors := m_activeMeteors s @ spawned core rate s n\<rparr>"
proof (induction n)
  case 0
  then show ?case by (simp add: spawned_def)
next
  case (Suc n)
  let ?s = "s\<lparr>m_activeMeteors := m_activeMeteors s @ spawned core rate s n\<rparr>"
  have "foldl (spawn_step core rate) s [0 ..< Suc n] = spawn_step core rate ?s n"
    by (simp add: Suc.IH)
  also have "\<dots> = s\<lparr>m_activeMeteors := m_activeMeteors s @ spawned core rate s (Suc n)\<rparr>"
    by (simp add: spawn_step_def Let_def spawned_Suc)
  finally show ?case .
qed

lemma maxThisFrame_max: "maxThisFrame mpf = max 1 (qRound mpf)"
  by (simp add: maxThisFrame_def Let_def max_def)

lemma spawn_meteors_eq:
  "spawn_meteors core z dt s =
     s\<lparr>m_activeMeteors := m_activeMeteors s @
          spawned core (meteorsPerFrame z dt / real_of_int (maxThisFrame (meteorsPerFrame z dt)))
            s (nat (maxThisFrame (meteorsPerFrame z dt)))\<rparr>"
  by (simp add: spawn_meteors_def Let_def spawn_fold)

lemma fix_radiant_rest_fields [simp]:
  "m_speed (fix_radiant t s) = m_speed s" "m_pidx (fix_radiant t s) = m_pidx s"
  "m_colors (fix_radiant t s) = m_colors s"
  by (simp_all add: fix_radiant_def Let_def)

lemma age_meteors_rest_fields [simp]:
  "m_speed (age_meteors c dt s) = m_speed s" "m_pidx (age_meteors c dt s) = m_pidx s"
  "m_colors (age_meteors c dt s) = m_colors s"
  by (simp_all add: age_meteors_def)


lemma qRound_of_int: "qRound (real_of_int z) = z"
  by (simp add: qRound_def floor_eq_iff)

lemma calculateZHR_at_peak:
  assumes "zhr a \<noteq> - 1" "toJulianDay (finish a) \<noteq> toJulianDay (peak a)"
  shows "calculateZHR nan a (real_of_int (toJulianDay (peak a))) = Inr (zhr a)"
  using assms by (simp add: calculateZHR_def Let_def gauss_factor_def qRound_of_int)

lemma getDate_jan10: "getDateFromJulianDay 2457033 = (2015, 1, 10)"
  by code_simp

lemma julianDay_jan10: "julianDayFromDate 2015 1 10 = 2457033"
  by code_simp

lemma julianDay_jan20: "julianDayFromDate 2015 1 20 = 2457043"
  by code_simp

lemma fromJulianDay_jan10:
  "getJD core = 2457033 \<Longrightarrow>
   QDate_fromJulianDay (double_to_qint64 (getJD core)) = QDate_ymd 2015 1 10"
  by (simp add: double_to_qint64_def QDate_fromJulianDay_def minJd_def maxJd_def
      getDate_jan10)

lemma ex_storm_resolve:
  "resolve_activity (QDate_ymd 2015 1 10) ex_storm =
     Inr (ex_storm\<lparr>m_status := ACTIVE_GENERIC, m_activity := ex_storm_activity\<rparr>)"
  by code_simp

lemma ex_storm_zhr: "calculateZHR nan ex_storm_activity 2457033 = Inr 5040"
  using calculateZHR_at_peak[of ex_storm_activity nan]
  by (simp add: ex_storm_activity_def julianDay_jan10 julianDay_jan20)

lemma ex_storm_tick:
  assumes "getJD core = 2457033" "getRealTimeSpeed core"
  shows "\<exists>s'. update core 1 ex_storm = Inr s' \<and> enabled True s' \<and>
           calculateZHR 0 (m_activity s') 2457033 = Inr 5040 \<and>
           length (m_activeMeteors s') \<le> 1"
proof -
  let ?r = "ex_storm\<lparr>m_status := ACTIVE_GENERIC, m_activity := ex_storm_activity\<rparr>"
  have n: "m_status ex_storm \<noteq> INVALID"
    by (simp add: ex_storm_def ex_state_def)
  have r: "resolve_activity (QDate_fromJulianDay (double_to_qint64 (getJD core))) ex_storm =
             Inr ?r"
    by (simp only: fromJulianDay_jan10[OF assms(1)] ex_storm_resolve)
  have z: "calculateZHR (qRound_NaN core) (m_activity ?r) (getJD core) = Inr 5040"
    by (simp add: assms(1) ex_storm_zhr)
  have en: "enabled b ?r" for b
    by (simp add: enabled_def)
  let ?a = "age_meteors core 1 (fix_radiant (getJD core) ?r)"
  have u: "update core 1 ex_storm = Inr (spawn_meteors core 5040 1 ?a)"
    by (simp add: update_unfold[OF n r z] en assms(2))
  have m: "update_meteors core 1 (m_activeMeteors ex_storm) = []"
    by (simp add: update_meteors_def ex_storm_def ex_state_def MeteorShower_init_def)
  have mx: "maxThisFrame (meteorsPerFrame 5040 1) = 1"
    by (simp add: maxThisFrame_def meteorsPerFrame_def qRound_def Let_def)
  have l: "length (m_activeMeteors (spawn_meteors core 5040 1 ?a)) \<le> 1"
    using spawned_length[of core "meteorsPerFrame 5040 1 / real_of_int (maxThisFrame (meteorsPerFrame 5040 1))" ?a "nat (maxThisFrame (meteorsPerFrame 5040 1))"]
    by (simp add: spawn_meteors_eq m mx)
  show ?thesis
    using u l by (simp add: enabled_def ex_storm_zhr)
qed


lemma ex_state_resolve:
  "resolve_activity (QDate_ymd 2015 1 10) ex_state =
     Inr (ex_state\<lparr>m_status := ACTIVE_CONFIRMED, m_activity := ex_confirmed_activity\<rparr>)"
  by code_simp

lemma ex_state_zhr: "calculateZHR nan (ex_confirmed_activity) 2457033 = Inr 10"
  using calculateZHR_at_peak[of ex_confirmed_activity nan]
  by (simp add: ex_confirmed_activity_def julianDay_jan10 julianDay_jan20)

lemma ex_state_tick:
  "\<exists>s'. update ex_core 1 ex_state = Inr s' \<and> enabled (getActiveRadiantOnly ex_core) s' \<and>
         m_activity s' = ex_confirmed_activity"
proof -
  let ?r = "ex_state\<lparr>m_status := ACTIVE_CONFIRMED, m_activity := ex_confirmed_activity\<rparr>"
  have jd: "getJD ex_core = 2457033"
    by (simp add: ex_core_def)
  have n: "m_status ex_state \<noteq> INVALID"
    by (simp add: ex_state_def)
  have r: "resolve_activity (QDate_fromJulianDay (double_to_qint64 (getJD ex_core))) ex_state =
             Inr ?r"
    by (simp only: fromJulianDay_jan10[OF jd] ex_state_resolve)
  have z: "calculateZHR (qRound_NaN ex_core) (m_activity ?r) (getJD ex_core) = Inr 10"
    by (simp add: jd ex_state_zhr)
  have en: "enabled b ?r" for b
    by (simp add: enabled_def)
  have rt: "getRealTimeSpeed ex_core"
    by (simp add: ex_core_def)
  show ?thesis
    by (simp add: update_unfold[OF n r z] en rt enabled_def)
qed


subsection \<open>The rate model\<close>

lemma calculateZHR_bounds:
  assumes "variable_wf a"
  shows "calculateZHR nan a t =
           (case gauss_factor (t - real_of_int (toJulianDay (peak a)))
                   (if t \<ge> real_of_int (toJulianDay (start a)) \<and>
                       t < real_of_int (toJulianDay (peak a))
                    then (real_of_int (toJulianDay (peak a)) -
                          real_of_int (toJulianDay (start a))) / 2
                    else (real_of_int (toJulianDay (finish a)) -
                          real_of_int (toJulianDay (peak a))) / 2) of
              None \<Rightarrow> Inr nan
            | Some f \<Rightarrow>
                Inr (qRound (real_of_int (rate_amplitude a) * f + real_of_int (rate_floor a))))"
proof -
  have amp: "(if zhr a = - 1 then QList_at (variable a) 1 else Inr (zhr a)) =
               Inr (rate_amplitude a)"
    using assms by (simp add: variable_wf_def QList_at_def rate_amplitude_def)
  have fl: "(if zhr a = - 1 then QList_at (variable a) 0 else Inr 0) = Inr (rate_floor a)"
    using assms by (simp add: variable_wf_def QList_at_def rate_floor_def)
  show ?thesis
    unfolding calculateZHR_def Let_def amp fl by simp
qed


lemma julianDay_jan1: "julianDayFromDate 2015 1 1 = 2457024"
  by code_simp


subsection \<open>The order of dates in successive years\<close>

lemma leap_step:
  fixes a a' b b' c c' y :: int
  shows "a \<le> a' \<Longrightarrow> c \<le> c' \<Longrightarrow> b' \<le> b + 1 \<Longrightarrow>
    365 * y + a - b + c + 364 \<le> 365 * (y + 1) + a' - b' + c'"
  by (simp add: algebra_simps)

lemma div100_step: "((z::int) + 1) div 100 \<le> z div 100 + 1"
proof -
  have "(z + 1) div 100 \<le> (z + 100) div 100" by (simp add: zdiv_mono1)
  also have "\<dots> = z div 100 + 1" by simp
  finally show ?thesis .
qed

lemma year_days_step: "year_days y + 364 \<le> year_days (y + 1)"
  unfolding year_days_def
  by (rule leap_step) (simp_all add: zdiv_mono1 div100_step)

lemma month_offset_Jan_Feb: "10 \<le> m \<Longrightarrow> m \<le> 11 \<Longrightarrow> 306 \<le> month_offset m \<and> month_offset m \<le> 337"
  unfolding month_offset_def by linarith

lemma month_offset_Mar_Dec: "0 \<le> m \<Longrightarrow> m \<le> 9 \<Longrightarrow> 0 \<le> month_offset m \<and> month_offset m \<le> 275"
  unfolding month_offset_def by linarith

lemma a_Jan_Feb: "1 \<le> (m::int) \<Longrightarrow> m \<le> 2 \<Longrightarrow> (14 - m) div 12 = 1"
  by linarith

lemma a_Mar_Dec: "3 \<le> (m::int) \<Longrightarrow> m \<le> 12 \<Longrightarrow> (14 - m) div 12 = 0"
  by linarith

lemma julianDay_Jan_Feb:
  assumes "0 \<le> y" "1 \<le> m" "m \<le> 2"
  shows "julianDayFromDate y m d = d + month_offset (m + 9) + year_days (y + 4799) - 32045"
proof -
  have y: "\<not> y < 0" using assms(1) by simp
  have e1: "y + 4800 - 1 = y + 4799" and e2: "m + 12 * 1 - 3 = m + 9" by simp_all
  show ?thesis
    unfolding julianDayFromDate_def Let_def a_Jan_Feb[OF assms(2,3)] if_not_P[OF y] e1 e2
      year_days_def month_offset_def
    by (simp only: add.assoc diff_conv_add_uminus)
qed

lemma julianDay_Mar_Dec:
  assumes "0 \<le> y" "3 \<le> m" "m \<le> 12"
  shows "julianDayFromDate y m d = d + month_offset (m - 3) + year_days (y + 4800) - 32045"
proof -
  have y: "\<not> y < 0" using assms(1) by simp
  have e1: "y + 4800 - 0 = y + 4800" and e2: "m + 12 * 0 - 3 = m - 3" by simp_all
  show ?thesis
    unfolding julianDayFromDate_def Let_def a_Mar_Dec[OF assms(2,3)] if_not_P[OF y] e1 e2
      year_days_def month_offset_def
    by (simp only: add.assoc diff_conv_add_uminus)
qed

lemma julianDay_upper:
  assumes "0 \<le> y" "1 \<le> m" "m \<le> 12" "d \<le> 31"
  shows "julianDayFromDate y m d \<le> 306 + year_days (y + 4800) - 32045"
proof (cases "m \<le> 2")
  case True
  have "month_offset (m + 9) \<le> 337"
    using month_offset_Jan_Feb[of "m + 9"] True assms(2) by simp
  moreover have "year_days (y + 4799) + 364 \<le> year_days (y + 4800)"
    using year_days_step[of "y + 4799"] by (simp add: ac_simps)
  ultimately show ?thesis
    unfolding julianDay_Jan_Feb[OF assms(1,2) True] using assms(4) by linarith
next
  case False
  then have m3: "3 \<le> m" by simp
  have "month_offset (m - 3) \<le> 275"
    using month_offset_Mar_Dec[of "m - 3"] m3 assms(3) by simp
  then show ?thesis
    unfolding julianDay_Mar_Dec[OF assms(1) m3 assms(3)] using assms(4) by linarith
qed

lemma julianDay_lower:
  assumes "0 \<le> y" "1 \<le> m" "m \<le> 12" "1 \<le> d"
  shows "307 + year_days (y + 4799) - 32045 \<le> julianDayFromDate y m d"
proof (cases "m \<le> 2")
  case True
  have "306 \<le> month_offset (m + 9)"
    using month_offset_Jan_Feb[of "m + 9"] True assms(2) by simp
  then show ?thesis
    unfolding julianDay_Jan_Feb[OF assms(1,2) True] using assms(4) by linarith
next
  case False
  then have m3: "3 \<le> m" by simp
  have "0 \<le> month_offset (m - 3)"
    using month_offset_Mar_Dec[of "m - 3"] m3 assms(3) by simp
  moreover have "year_days (y + 4799) + 364 \<le> year_days (y + 4800)"
    using year_days_step[of "y + 4799"] by (simp add: ac_simps)
  ultimately show ?thesis
    unfolding julianDay_Mar_Dec[OF assms(1) m3 assms(3)] using assms(4) by linarith
qed

lemma julianDay_next_year:
  assumes "0 \<le> y" "y < y'" "1 \<le> m1" "m1 \<le> 12" "d1 \<le> 31"
    "1 \<le> m2" "m2 \<le> 12" "1 \<le> d2"
  shows "julianDayFromDate y m1 d1 < julianDayFromDate y' m2 d2"
proof -
  have u: "julianDayFromDate y m1 d1 \<le> 306 + year_days (y + 4800) - 32045"
    using julianDay_upper[OF assms(1,3,4,5)] .
  have l: "307 + year_days (y' + 4799) - 32045 \<le> julianDayFromDate y' m2 d2"
    using julianDay_lower[of y' m2 d2] assms by simp
  have mono: "year_days (y + 4800) \<le> year_days (y' + 4799)"
  proof -
    have "\<And>k::nat. year_days (y + 4800) \<le> year_days (y + 4800 + int k)"
    proof -
      fix k :: nat
      show "year_days (y + 4800) \<le> year_days (y + 4800 + int k)"
      proof (induction k)
        case 0
        then show ?case by simp
      next
        case (Suc k)
        have "year_days (y + 4800 + int k) + 364 \<le> year_days (y + 4800 + int k + 1)"
          by (rule year_days_step)
        with Suc show ?case by (simp add: add.assoc)
      qed
    qed
    from this[of "nat (y' - y - 1)"] assms(2) show ?thesis by (simp add: ac_simps)
  qed
  from u l mono show ?thesis by linarith
qed

subsection \<open>The year of a parsed date\<close>

lemma digit_val_space [simp]: "digit_val (CHR '' '') = None"
  by (simp add: digit_val_def)

lemma digit_val_nonneg: "digit_val c = Some v \<Longrightarrow> 0 \<le> v"
  by (auto simp: digit_val_def Let_def split: if_splits)

lemma digits_val_nonneg: "digits_val acc cs = Some v \<Longrightarrow> 0 \<le> acc \<Longrightarrow> 0 \<le> v"
proof (induction cs arbitrary: acc)
  case Nil
  then show ?case by simp
next
  case (Cons c cs)
  from Cons.prems(1) obtain w where w: "digit_val c = Some w"
    and r: "digits_val (10 * acc + w) cs = Some v"
    by (auto split: option.splits)
  have "0 \<le> 10 * acc + w"
    using digit_val_nonneg[OF w] Cons.prems(2) by simp
  with Cons.IH[OF r] show ?case by simp
qed

lemma digits_val_all: "digits_val acc cs = Some v \<Longrightarrow> c \<in> set cs \<Longrightarrow> digit_val c \<noteq> None"
  by (induction cs arbitrary: acc) (auto split: option.splits)

lemma length_ten:
  "length s = 10 \<Longrightarrow> \<exists>c0 c1 c2 c3 c4 c5 c6 c7 c8 c9. s = [c0, c1, c2, c3, c4, c5, c6, c7, c8, c9]"
  by (auto simp: eval_nat_numeral length_Suc_conv)

lemma fromString_valid:
  assumes "isValid (QDate_fromString s)"
  shows "\<exists>c0 c1 c3 c4 c6 c7 c8 c9 y m d.
           s = [c0, c1, CHR ''.'', c3, c4, CHR '' '', c6, c7, c8, c9] \<and>
           digit_val c0 \<noteq> None \<and> digit_val c1 \<noteq> None \<and> digit_val c3 \<noteq> None \<and>
           digit_val c4 \<noteq> None \<and>
           digits_val 0 [c6, c7, c8, c9] = Some y \<and>
           QDate_fromString s = QDate_ymd y m d \<and> isValid_ymd y m d"
proof -
  have l: "length s = 10"
    using assms by (auto simp: QDate_fromString_def split: if_splits)
  from length_ten[OF l] obtain c0 c1 c2 c3 c4 c5 c6 c7 c8 c9 where
    s: "s = [c0, c1, c2, c3, c4, c5, c6, c7, c8, c9]" by blast
  have c: "c2 = CHR ''.''" "c5 = CHR '' ''"
    using assms by (auto simp: QDate_fromString_def s split: if_splits)
  obtain m d y where p: "digits_val 0 [c0, c1] = Some m" "digits_val 0 [c3, c4] = Some d"
    "digits_val 0 [c6, c7, c8, c9] = Some y" "QDate_fromString s = QDate_setDate y m d"
    using assms unfolding QDate_fromString_def s c
    by (simp split: option.splits)
  have v: "isValid_ymd y m d" "QDate_setDate y m d = QDate_ymd y m d"
    using assms p(4) by (auto simp: QDate_setDate_def split: if_splits)
  have d: "digit_val c0 \<noteq> None" "digit_val c1 \<noteq> None" "digit_val c3 \<noteq> None"
    "digit_val c4 \<noteq> None"
    using digits_val_all[OF p(1)] digits_val_all[OF p(2)] by simp_all
  show ?thesis
    using s c p v d by auto
qed

lemma field_year_split:
  assumes "f @ CHR '' '' # yr = [c0, c1, CHR ''.'', c3, c4, CHR '' '', c6, c7, c8, c9]"
    and "digit_val c0 \<noteq> None" "digit_val c1 \<noteq> None" "digit_val c3 \<noteq> None"
    "digit_val c4 \<noteq> None" "digits_val 0 [c6, c7, c8, c9] = Some y"
  shows "yr = [c6, c7, c8, c9]"
proof -
  have d: "digit_val c6 \<noteq> None" "digit_val c7 \<noteq> None" "digit_val c8 \<noteq> None"
    "digit_val c9 \<noteq> None"
    using digits_val_all[OF assms(6)] by simp_all
  show ?thesis
    using assms(1-5) d
    by (auto simp: append_eq_Cons_conv)
qed

lemma parse_date_valid:
  assumes "isValid (parse_date f yr)"
  shows "\<exists>y m d. parse_date f yr = QDate_ymd y m d \<and> isValid_ymd y m d \<and>
           digits_val 0 yr = Some y"
proof -
  have ne: "f \<noteq> []"
    using assms by (auto simp: parse_date_def QDate_fromString_def)
  then have e: "parse_date f yr = QDate_fromString (f @ CHR '' '' # yr)"
    by (simp add: parse_date_def)
  from fromString_valid[of "f @ CHR '' '' # yr"] assms e
  obtain c0 c1 c3 c4 c6 c7 c8 c9 y m d where
    k: "f @ CHR '' '' # yr = [c0, c1, CHR ''.'', c3, c4, CHR '' '', c6, c7, c8, c9]"
      "digit_val c0 \<noteq> None" "digit_val c1 \<noteq> None" "digit_val c3 \<noteq> None"
      "digit_val c4 \<noteq> None" "digits_val 0 [c6, c7, c8, c9] = Some y"
      "QDate_fromString (f @ CHR '' '' # yr) = QDate_ymd y m d" "isValid_ymd y m d"
    by auto
  have "yr = [c6, c7, c8, c9]"
    by (rule field_year_split[OF k(1-6)])
  with k e show ?thesis by simp
qed

subsection \<open>Normalized dates\<close>

lemma isValid_ymd_bounds:
  "isValid_ymd y m d \<Longrightarrow> y \<noteq> 0 \<and> 1 \<le> m \<and> m \<le> 12 \<and> 1 \<le> d \<and> d \<le> 31"
  by (auto simp: isValid_ymd_def monthDays_def split: if_splits)

lemma addYears_one:
  assumes "isValid_ymd y m d" "1 \<le> y"
  shows "\<exists>d'. addYears (QDate_ymd y m d) 1 = QDate_ymd (y + 1) m d' \<and> 1 \<le> d' \<and> d' \<le> 31"
proof -
  have b: "1 \<le> m" "m \<le> 12" "1 \<le> d" "d \<le> 31"
    using isValid_ymd_bounds[OF assms(1)] by simp_all
  have v1: "isValid_ymd (y + 1) m 1"
    using b assms(2) by (auto simp: isValid_ymd_def monthDays_def)
  have dim: "28 \<le> daysInMonth (y + 1) m" "daysInMonth (y + 1) m \<le> 31"
    using b by (auto simp: daysInMonth_def monthDays_def)
  let ?d = "min d (daysInMonth (y + 1) m)"
  have v2: "isValid_ymd (y + 1) m ?d"
    using b assms(2) dim
    by (auto simp: isValid_ymd_def daysInMonth_def monthDays_def min_def split: if_splits)
  have "addYears (QDate_ymd y m d) 1 = QDate_ymd (y + 1) m ?d"
    using assms(2) v1 v2 by (simp add: fixedDate_def QDate_setDate_def Let_def)
  moreover have "1 \<le> ?d" "?d \<le> 31"
    using b dim by simp_all
  ultimately show ?thesis by blast
qed

lemma julianDay_pushed:
  assumes "isValid_ymd y m1 d1" "isValid_ymd y m2 d2" "1 \<le> y"
  shows "isValid (addYears (QDate_ymd y m2 d2) 1) \<and>
         toJulianDay (QDate_ymd y m1 d1) \<le> toJulianDay (addYears (QDate_ymd y m2 d2) 1)"
proof -
  from addYears_one[OF assms(2,3)] obtain d' where
    a: "addYears (QDate_ymd y m2 d2) 1 = QDate_ymd (y + 1) m2 d'" "1 \<le> d'" "d' \<le> 31"
    by blast
  have b1: "1 \<le> m1" "m1 \<le> 12" "d1 \<le> 31"
    using isValid_ymd_bounds[OF assms(1)] by simp_all
  have b2: "1 \<le> m2" "m2 \<le> 12"
    using isValid_ymd_bounds[OF assms(2)] by simp_all
  have "julianDayFromDate y m1 d1 < julianDayFromDate (y + 1) m2 d'"
    by (rule julianDay_next_year) (use assms(3) b1 b2 a(2) in simp_all)
  then show ?thesis
    by (simp add: a(1) del: addYears.simps)
qed

lemma fix_years_ordered:
  assumes "start d = QDate_ymd y m1 d1" "finish d = QDate_ymd y m2 d2"
    "peak d = QDate_ymd y m3 d3"
    "isValid_ymd y m1 d1" "isValid_ymd y m2 d2" "isValid_ymd y m3 d3" "1 \<le> y"
  shows "dates_valid (fix_years d) \<and>
         date_le (start (fix_years d)) (finish (fix_years d)) \<and>
         date_le (start (fix_years d)) (peak (fix_years d))"
proof -
  note pf = julianDay_pushed[OF assms(4,5,7)]
  note pp = julianDay_pushed[OF assms(4,6,7)]
  have f: "finish (fix_years d) =
             (if date_gt (start d) (finish d) then addYears (finish d) 1 else finish d)"
    using assms(1-3) by (simp add: fix_years_def Let_def)
  have p: "peak (fix_years d) =
             (if date_gt (start d) (peak d) then addYears (peak d) 1 else peak d)"
    using assms(1-3) by (simp add: fix_years_def Let_def)
  show ?thesis
    unfolding dates_valid_def f p fix_years_fields
    using pf pp assms(1-3)
    by (simp add: date_le_def date_gt_def del: addYears.simps)
qed

lemma parse_activity_ordered:
  assumes "parse_activity am = Some p" "dates_given am"
  shows "dates_valid p \<and> date_le (start p) (finish p) \<and> date_le (start p) (peak p)"
    and "start p = record_date am (am_start am)"
    and "finish p =
           pushed_forward (record_date am (am_start am)) (record_date am (am_finish am))"
    and "peak p =
           pushed_forward (record_date am (am_start am)) (record_date am (am_peak am))"
proof -
  let ?yr = "QString_number (if am_year am = 0 then genericYear else am_year am)"
  have v: "isValid (parse_date (am_start am) ?yr)" "isValid (parse_date (am_finish am) ?yr)"
    "isValid (parse_date (am_peak am) ?yr)"
    using assms(2) by (simp_all add: dates_given_def record_date_def)
  from parse_date_valid[OF v(1)] obtain y m1 d1 where
    s: "parse_date (am_start am) ?yr = QDate_ymd y m1 d1" "isValid_ymd y m1 d1"
       "digits_val 0 ?yr = Some y" by blast
  from parse_date_valid[OF v(2)] s(3) obtain m2 d2 where
    f: "parse_date (am_finish am) ?yr = QDate_ymd y m2 d2" "isValid_ymd y m2 d2" by auto
  from parse_date_valid[OF v(3)] s(3) obtain m3 d3 where
    k: "parse_date (am_peak am) ?yr = QDate_ymd y m3 d3" "isValid_ymd y m3 d3" by auto
  have "0 \<le> y" using digits_val_nonneg[OF s(3)] by simp
  moreover have "y \<noteq> 0" using isValid_ymd_bounds[OF s(2)] by simp
  ultimately have y1: "1 \<le> y" by simp
  obtain var where pv: "parse_variable (am_zhr am) (am_variable am) = (True, var)"
    using assms(1) by (auto simp: parse_activity_def split: prod.splits bool.splits)
  let ?d = "\<lparr>year = am_year am, zhr = am_zhr am, variable = var,
             start = parse_date (am_start am) ?yr, finish = parse_date (am_finish am) ?yr,
             peak = parse_date (am_peak am) ?yr\<rparr>"
  have p: "p = fix_years ?d"
    using assms(1) pv by (simp add: parse_activity_def Let_def)
  show "dates_valid p \<and> date_le (start p) (finish p) \<and> date_le (start p) (peak p)"
    unfolding p
    by (rule fix_years_ordered[of _ y m1 d1 m2 d2 m3 d3])
       (simp_all add: s f k y1)
  show "start p = record_date am (am_start am)"
    unfolding p by (simp add: record_date_def)
  show "finish p =
          pushed_forward (record_date am (am_start am)) (record_date am (am_finish am))"
    unfolding p using v
    by (simp add: fix_years_def Let_def record_date_def pushed_forward_def
        del: addYears.simps)
  show "peak p =
          pushed_forward (record_date am (am_start am)) (record_date am (am_peak am))"
    unfolding p using v
    by (simp add: fix_years_def Let_def record_date_def pushed_forward_def
        del: addYears.simps)
qed

lemma fill_activity_valid:
  "dates_valid a \<Longrightarrow>
   start (fill_activity g a) = start a \<and> finish (fill_activity g a) = finish a \<and>
   peak (fill_activity g a) = peak a"
  by (simp add: fill_activity_def dates_valid_def Let_def)


lemma ex_spanning_ctor:
  "(case (MeteorShower_ctor (\<lambda>a. 0) ex_spanning_shower :: error + unit MeteorShower) of
      Inl e \<Rightarrow> False
    | Inr s \<Rightarrow> m_status s = UNDEFINED \<and>
        m_activities s =
          [\<lparr>year = 0, zhr = 120, variable = [], start = QDate_ymd 1000 12 28,
            finish = QDate_ymd 1001 1 12, peak = QDate_ymd 1001 1 4\<rparr>,
           \<lparr>year = 2014, zhr = 120, variable = [], start = QDate_ymd 2014 12 28,
            finish = QDate_ymd 2015 1 12, peak = QDate_ymd 2014 1 3\<rparr>])"
  by code_simp

lemma ex_spanning_ctor_Inr:
  "\<exists>s :: unit MeteorShower.
     MeteorShower_ctor (\<lambda>a. 0) ex_spanning_shower = Inr s \<and> m_status s = UNDEFINED \<and>
     m_activities s =
       [\<lparr>year = 0, zhr = 120, variable = [], start = QDate_ymd 1000 12 28,
         finish = QDate_ymd 1001 1 12, peak = QDate_ymd 1001 1 4\<rparr>,
        \<lparr>year = 2014, zhr = 120, variable = [], start = QDate_ymd 2014 12 28,
         finish = QDate_ymd 2015 1 12, peak = QDate_ymd 2014 1 3\<rparr>]"
  using ex_spanning_ctor
  by (cases "MeteorShower_ctor (\<lambda>a. 0) ex_spanning_shower :: error + unit MeteorShower")
     simp_all

lemma ex_dec28_after_jan3: "\<not> date_le (QDate_ymd 2014 12 28) (QDate_ymd 2014 1 3)"
  by code_simp

lemma ex_spanning_given: "dates_given ex_spanning_window"
  by code_simp



subsection \<open>The generic window across the new year\<close>

lemma setDate_fields:
  "isValid (QDate_setDate y m d) \<Longrightarrow>
   month_of (QDate_setDate y m d) = m \<and> day_of (QDate_setDate y m d) = d \<and>
   year_of (QDate_setDate y m d) = y"
  by (auto simp: QDate_setDate_def split: if_splits)

text \<open>
  Where the first alignment gives two valid dates, \<^verbatim>\<open>hasGenericShower\<close> is the resolution
  of the specification.
\<close>

lemma generic_resolution_refines:
  assumes "year_of (start g) \<noteq> year_of (finish g) \<longrightarrow>
             isValid (project (start g) (year_of date)) \<and>
             isValid (project (finish g) (year_of date + 1))"
  shows "hasGenericShower (g # rest) date = Inr (generic_resolution_spec g date)"
proof (cases "year_of (start g) \<noteq> year_of (finish g)")
  case False
  then show ?thesis
    by (simp add: hasGenericShower_def generic_alignment_def generic_resolution_spec_def
        QList_at_def Let_def project_def in_window_def)
next
  case True
  with assms have v: "isValid (QDate_setDate (year_of date) (month_of (start g)) (day_of (start g)))"
    "isValid (QDate_setDate (year_of date + 1) (month_of (finish g)) (day_of (finish g)))"
    by (simp_all add: project_def)
  note s = setDate_fields[OF v(1)]
  note f = setDate_fields[OF v(2)]
  show ?thesis
    using True
    by (simp add: hasGenericShower_def generic_alignment_def generic_resolution_spec_def
        QList_at_def Let_def project_def in_window_def s f)
qed

text \<open>
  Claim C3 fails on the code in the year \<open>-1\<close>, the year before the year 1 (Qt has no
  year 0). On January 2 of that year the first alignment sets the finish on the year 0,
  which makes it the null date; the second alignment reads the month and the day of that
  null date, and sets the null date again. So the code finds no window, while the
  alignment of the start on the year \<open>-2\<close> and the finish on the year \<open>-1\<close>, from
  December 20 to January 5, contains the date.
\<close>

theorem generic_shower_missed_before_year_one:
  "hasGenericShower [ex_dec_jan] (QDate_ymd (- 1) 1 2) = Inr (Activity_empty, False) \<and>
   generic_resolution_spec ex_dec_jan (QDate_ymd (- 1) 1 2) =
     (ex_dec_jan\<lparr>year := - 2, start := QDate_ymd (- 2) 12 20, finish := QDate_ymd (- 1) 1 5,
                 peak := QDate_ymd (- 2) 12 25\<rparr>, True)"
  by code_simp

text \<open>
  Example 2 of the specification: December 25, 2014 and January 2, 2015 resolve to the
  same window, from December 20, 2014 to January 5, 2015.
\<close>

lemma example_2:
  "hasGenericShower [ex_dec_jan] (QDate_ymd 2014 12 25) =
     Inr (ex_dec_jan\<lparr>year := 2014, start := QDate_ymd 2014 12 20,
                     finish := QDate_ymd 2015 1 5, peak := QDate_ymd 2014 12 25\<rparr>, True) \<and>
   hasGenericShower [ex_dec_jan] (QDate_ymd 2015 1 2) =
     Inr (ex_dec_jan\<lparr>year := 2014, start := QDate_ymd 2014 12 20,
                     finish := QDate_ymd 2015 1 5, peak := QDate_ymd 2014 12 25\<rparr>, True)"
  by code_simp

subsection \<open>A peak after the finish\<close>

text \<open>A record whose peak is after its finish is stored as it is.\<close>

lemma peak_after_finish_kept:
  "(case (MeteorShower_ctor (\<lambda>a. 0)
            (ex_shower\<lparr>sm_activity := Some [ex_window\<lparr>am_peak := ''01.25''\<rparr>]\<rparr>)
          :: error + unit MeteorShower) of
      Inl e \<Rightarrow> False
    | Inr s \<Rightarrow> m_status s = UNDEFINED \<and>
        finish (m_activities s ! 0) = QDate_ymd 1000 1 20 \<and>
        peak (m_activities s ! 0) = QDate_ymd 1000 1 25 \<and>
        \<not> date_le (peak (m_activities s ! 0)) (finish (m_activities s ! 0)))"
  by code_simp

end
